theory Spec2Isabelle
  imports Complex_Main "HOL-Library.Sublist"
begin

section \<open>JavaScript values and the runtime\<close>

text \<open>
  Fields of the JSON objects handed to the skill are absent (\<open>Undefined\<close>), \<open>null\<close> or a
  string. A value is truthy when it is a non-empty string.
\<close>

datatype jsval = Undefined | Null | Str string

fun truthy :: "jsval \<Rightarrow> bool" where
  "truthy (Str s) = (s \<noteq> [])"
| "truthy _ = False"

text \<open>\<open>x || null\<close> on such a value.\<close>

fun orNull :: "jsval \<Rightarrow> string option" where
  "orNull (Str s) = (if s = [] then None else Some s)"
| "orNull _ = None"

text \<open>A stored nullable string: \<open>None\<close> is \<open>null\<close> or a missing key; the empty string is falsy.\<close>

definition truthyStr :: "string option \<Rightarrow> bool" where
  "truthyStr v = (case v of None \<Rightarrow> False | Some s \<Rightarrow> s \<noteq> [])"

text \<open>Interpolation of a value in a template literal.\<close>

fun tmpl :: "jsval \<Rightarrow> string" where
  "tmpl Undefined = ''undefined''"
| "tmpl Null = ''null''"
| "tmpl (Str s) = s"

text \<open>\<open>String.prototype.includes\<close>: the argument occurs as a contiguous substring.\<close>

fun str_includes :: "string \<Rightarrow> string \<Rightarrow> bool" where
  "str_includes [] ys = (ys = [])"
| "str_includes (x # xs) ys = (prefix ys (x # xs) \<or> str_includes xs ys)"

text \<open>Comparison of strings with \<open><=\<close>: lexicographic on the code units.\<close>

fun str_le :: "string \<Rightarrow> string \<Rightarrow> bool" where
  "str_le [] ys = True"
| "str_le (x # xs) [] = False"
| "str_le (x # xs) (y # ys) =
     (if (of_char x :: nat) < of_char y then True
      else if (of_char y :: nat) < of_char x then False
      else str_le xs ys)"

text \<open>\<open>Number.prototype.toString\<close> on an integer: decimal digits, a minus sign when negative.\<close>

definition digit :: "nat \<Rightarrow> char" where
  "digit d = ''0123456789'' ! d"

fun dec :: "nat \<Rightarrow> string" where
  "dec n = (if n < 10 then [digit n] else dec (n div 10) @ [digit (n mod 10)])"

declare dec.simps [simp del]

definition toString :: "int \<Rightarrow> string" where
  "toString n = (if n < 0 then CHR ''-'' # dec (nat (- n)) else dec (nat n))"

text \<open>
  What the program takes from Node and from the host: the SHA-256 hex digest of
  \<open>crypto\<close>; the time zones; \<open>toISOString\<close> of a valid \<open>Date\<close>, given by its time value;
  and the scratch directory \<open>TEMP_DIR\<close>. Instants (time values) are milliseconds since the
  epoch, as \<open>Date.now()\<close> returns them; a local time value is what a clock shows, counted
  the same way. \<open>wallClock z t\<close> is the local time value that the clock of the zone named
  \<open>z\<close> shows at the instant \<open>t\<close>, \<open>None\<close> when \<open>z\<close> is not the name of a time zone.
  \<open>localTime\<close> and \<open>utcTime\<close> are \<open>LocalTime\<close> and \<open>UTC\<close> of ECMAScript for the zone the
  process runs in: from an instant to the local time value, and back.
\<close>

record runtime =
  sha256hex :: "string \<Rightarrow> string"
  wallClock :: "string \<Rightarrow> int \<Rightarrow> int option"
  localTime :: "int \<Rightarrow> int"
  utcTime :: "int \<Rightarrow> int"
  isoUtc :: "int \<Rightarrow> string"
  TEMP_DIR :: string

section \<open>Data model\<close>

datatype status = Pending | Posted | Failed

record item =
  item_id :: string
  source :: jsval
  item_text :: string
  mediaUrl :: "string option"
  mediaType :: string
  telegramFileId :: "string option"
  contentHash :: "string option"
  addedAt :: string
  scheduledFor :: "string option"
  status :: status
  postedAt :: "string option"
  facebookPostId :: "string option"
  error :: "string option"

text \<open>The persisted queue; \<open>postedHashes\<close> is \<open>None\<close> when the key is missing from the file.\<close>

record queue =
  pending :: "item list"
  posted :: "item list"
  lastPostTime :: "string option"
  postedHashes :: "string list option"

text \<open>The queue \<open>loadQueue\<close> returns when no file exists.\<close>

definition emptyQueue :: queue where
  "emptyQueue = \<lparr>pending = [], posted = [], lastPostTime = None, postedHashes = Some []\<rparr>"

text \<open>The argument of \<open>addToQueue\<close>.\<close>

record content =
  content_source :: jsval
  content_text :: jsval
  content_mediaUrl :: jsval
  content_mediaType :: jsval
  content_telegramFileId :: jsval

text \<open>
  \<open>config.settings\<close>, flattened. \<open>dry_run\<close> is whether \<open>config.settings.dry_run === true\<close>;
  a missing \<open>facebook\<close> object is both of its keys missing.
\<close>

record config =
  page_id :: "string option"
  access_token :: "string option"
  api_version :: "string option"
  bot_token :: "string option"
  dry_run :: bool
  post_times :: "string list"
  timezone :: "string option"
  posts_per_day :: "int option"

record validation =
  valid :: bool
  errors :: "string list"

section \<open>Hashing, duplicates and validation\<close>

text \<open>\<open>generateContentHash\<close>: the default \<open>'text'\<close> replaces an undefined media type only.\<close>

definition generateContentHash :: "runtime \<Rightarrow> jsval \<Rightarrow> jsval \<Rightarrow> string" where
  "generateContentHash rt txt mt =
     (let mt' = (case mt of Undefined \<Rightarrow> Str ''text'' | _ \<Rightarrow> mt);
          c = tmpl txt @ '':'' @ tmpl mt'
      in take 16 (sha256hex rt c))"

text \<open>\<open>isDuplicateContent\<close> also fills in a missing \<open>postedHashes\<close> on the loaded queue.\<close>

definition isDuplicateContent :: "queue \<Rightarrow> string \<Rightarrow> bool \<times> queue" where
  "isDuplicateContent q h =
     (let hs = (case postedHashes q of None \<Rightarrow> [] | Some hs \<Rightarrow> hs)
      in (h \<in> set hs, q\<lparr>postedHashes := Some hs\<rparr>))"

definition validMediaTypes :: "string list" where
  "validMediaTypes = [''text'', ''image'', ''video'']"

definition validateInput :: "content \<Rightarrow> validation" where
  "validateInput c =
     (let e1 = (case content_text c of
                  Str t \<Rightarrow> if t = [] then [''Text content is required'']
                           else if length t > 2200
                                then [''Text exceeds Facebook limit of 2200 characters'']
                                else []
                | _ \<Rightarrow> [''Text content is required'']);
          e2 = (case content_mediaType c of
                  Str m \<Rightarrow> if m \<noteq> [] \<and> m \<notin> set validMediaTypes
                           then [''Invalid media type. Must be one of: text, image, video'']
                           else []
                | _ \<Rightarrow> [])
      in \<lparr>valid = (e1 @ e2 = []), errors = e1 @ e2\<rparr>)"

section \<open>The scheduler\<close>

datatype js_error = TypeError | RangeError

text \<open>
  A number of JavaScript: \<open>NaN\<close>, a finite double (binary64 of IEEE 754) or an infinity.
  The negative zero is not told from zero: the scheduler compares, truncates and adds, on
  which the two agree.
\<close>

datatype jsnum = NaN | Fin rat | PosInf | NegInf

text \<open>
  The double nearest to a rational, ties to the even significand: with \<open>e\<close> the binary
  exponent of the magnitude, at least \<open>-1022\<close>, the significand is the magnitude in units
  of \<open>2 ^ (e - 52)\<close>, rounded; a result of magnitude \<open>2 ^ 1024\<close> is an infinity.
\<close>

definition pow2 :: "int \<Rightarrow> rat" where
  "pow2 e = (if 0 \<le> e then 2 ^ nat e else 1 / 2 ^ nat (- e))"

fun bitLength :: "nat \<Rightarrow> nat" where
  "bitLength n = (if n = 0 then 0 else Suc (bitLength (n div 2)))"

declare bitLength.simps [simp del]

text \<open>For \<open>0 < x\<close>, the \<open>e\<close> with \<open>2 ^ e \<le> x < 2 ^ (e + 1)\<close>.\<close>

definition exponentOf :: "rat \<Rightarrow> int" where
  "exponentOf x =
     (if 1 \<le> x then int (bitLength (nat \<lfloor>x\<rfloor>)) - 1
      else - int (bitLength (nat (\<lceil>1 / x\<rceil> - 1))))"

definition roundHalfEven :: "rat \<Rightarrow> int" where
  "roundHalfEven x =
     (let f = \<lfloor>x\<rfloor>; d = x - of_int f
      in if d < 1 / 2 then f else if 1 / 2 < d then f + 1 else if even f then f else f + 1)"

definition toDouble :: "rat \<Rightarrow> jsnum" where
  "toDouble x =
     (if x = 0 then Fin 0
      else
        (let a = \<bar>x\<bar>;
             q = max (exponentOf a) (- 1022) - 52;
             v = of_int (roundHalfEven (a / pow2 q)) * pow2 q
         in if pow2 1024 \<le> v then (if 0 < x then PosInf else NegInf)
            else Fin (if 0 < x then v else - v)))"

fun num_neg :: "jsnum \<Rightarrow> jsnum" where
  "num_neg NaN = NaN"
| "num_neg (Fin a) = Fin (- a)"
| "num_neg PosInf = NegInf"
| "num_neg NegInf = PosInf"

text \<open>\<open>x + y\<close>.\<close>

fun num_add :: "jsnum \<Rightarrow> jsnum \<Rightarrow> jsnum" where
  "num_add NaN y = NaN"
| "num_add x NaN = NaN"
| "num_add (Fin a) (Fin b) = toDouble (a + b)"
| "num_add (Fin a) y = y"
| "num_add x (Fin b) = x"
| "num_add PosInf PosInf = PosInf"
| "num_add NegInf NegInf = NegInf"
| "num_add PosInf NegInf = NaN"
| "num_add NegInf PosInf = NaN"

text \<open>\<open>x * 60\<close>.\<close>

fun num_times60 :: "jsnum \<Rightarrow> jsnum" where
  "num_times60 (Fin a) = toDouble (a * 60)"
| "num_times60 x = x"

text \<open>\<open>x > n\<close> for an integer \<open>n\<close>.\<close>

fun num_gt :: "jsnum \<Rightarrow> int \<Rightarrow> bool" where
  "num_gt (Fin a) n = (a > of_int n)"
| "num_gt PosInf n = True"
| "num_gt x n = False"

text \<open>
  \<open>ToIntegerOrInfinity\<close> inside \<open>MakeTime\<close>: a finite value loses its fraction, anything
  else makes the time \<open>NaN\<close> (\<open>None\<close>).
\<close>

fun toInteger :: "jsnum \<Rightarrow> int option" where
  "toInteger (Fin a) = Some (if a < 0 then - \<lfloor>- a\<rfloor> else \<lfloor>a\<rfloor>)"
| "toInteger x = None"

text \<open>
  \<open>Number\<close> on a string (\<open>StringToNumber\<close>): blanks at both ends are dropped; the empty
  string is 0; a literal with the prefix \<open>0x\<close>, \<open>0o\<close> or \<open>0b\<close> is read in its radix; else an
  optional sign is followed by \<open>Infinity\<close> or by decimal digits with an optional fraction
  and an optional exponent. Every other string is \<open>NaN\<close>. The value is the double nearest
  to the value of the literal. Strings are over the characters below 256.
\<close>

definition isDigit :: "char \<Rightarrow> bool" where
  "isDigit c = (48 \<le> (of_char c :: nat) \<and> (of_char c :: nat) \<le> 57)"

definition isHexDigit :: "char \<Rightarrow> bool" where
  "isHexDigit c =
     (isDigit c \<or> (65 \<le> (of_char c :: nat) \<and> (of_char c :: nat) \<le> 70)
      \<or> (97 \<le> (of_char c :: nat) \<and> (of_char c :: nat) \<le> 102))"

definition isOctalDigit :: "char \<Rightarrow> bool" where
  "isOctalDigit c = (48 \<le> (of_char c :: nat) \<and> (of_char c :: nat) \<le> 55)"

definition isBinaryDigit :: "char \<Rightarrow> bool" where
  "isBinaryDigit c = (c = CHR ''0'' \<or> c = CHR ''1'')"

definition digitValue :: "char \<Rightarrow> nat" where
  "digitValue c =
     (let n = (of_char c :: nat)
      in if n \<le> 57 then n - 48 else if n \<le> 70 then n - 55 else n - 87)"

definition radixValue :: "nat \<Rightarrow> string \<Rightarrow> nat" where
  "radixValue b s = foldl (\<lambda>a c. b * a + digitValue c) 0 s"

text \<open>The white space and line terminators among the characters below 256.\<close>

definition isWhiteSpace :: "char \<Rightarrow> bool" where
  "isWhiteSpace c = ((of_char c :: nat) \<in> {9, 10, 11, 12, 13, 32, 160})"

definition trim :: "string \<Rightarrow> string" where
  "trim s = rev (dropWhile isWhiteSpace (rev (dropWhile isWhiteSpace s)))"

text \<open>The \<open>SignedInteger\<close> of an exponent part.\<close>

definition signedInteger :: "string \<Rightarrow> int option" where
  "signedInteger s =
     (case s of
        [] \<Rightarrow> None
      | c # r \<Rightarrow>
          if c = CHR ''+''
          then (if r \<noteq> [] \<and> list_all isDigit r then Some (int (radixValue 10 r)) else None)
          else if c = CHR ''-''
          then (if r \<noteq> [] \<and> list_all isDigit r then Some (- int (radixValue 10 r)) else None)
          else if list_all isDigit s then Some (int (radixValue 10 s)) else None)"

text \<open>Decimal digits with an optional fraction: digits on at least one side of the point.\<close>

definition mantissa :: "string \<Rightarrow> rat option" where
  "mantissa s =
     (let ip = takeWhile isDigit s; r = dropWhile isDigit s
      in if r = [] then (if ip = [] then None else Some (of_nat (radixValue 10 ip)))
         else if hd r = CHR ''.''
         then (let fp = tl r
               in if list_all isDigit fp \<and> (ip \<noteq> [] \<or> fp \<noteq> [])
                  then Some (of_nat (radixValue 10 ip)
                             + of_nat (radixValue 10 fp) / 10 ^ length fp)
                  else None)
         else None)"

definition isExponentIndicator :: "char \<Rightarrow> bool" where
  "isExponentIndicator c = (c = CHR ''e'' \<or> c = CHR ''E'')"

definition unsignedDecimal :: "string \<Rightarrow> jsnum" where
  "unsignedDecimal s =
     (if s = ''Infinity'' then PosInf
      else
        (let m = takeWhile (\<lambda>c. \<not> isExponentIndicator c) s;
             r = dropWhile (\<lambda>c. \<not> isExponentIndicator c) s
         in case mantissa m of
              None \<Rightarrow> NaN
            | Some v \<Rightarrow>
                if r = [] then toDouble v
                else (case signedInteger (tl r) of
                        None \<Rightarrow> NaN
                      | Some e \<Rightarrow> toDouble (if 0 \<le> e then v * 10 ^ nat e
                                             else v / 10 ^ nat (- e)))))"

text \<open>A literal with a radix prefix, which takes no sign; \<open>None\<close> without such a prefix.\<close>

definition nonDecimal :: "string \<Rightarrow> jsnum option" where
  "nonDecimal s =
     (case s of
        c0 # c1 # r \<Rightarrow>
          if c0 = CHR ''0'' \<and> (c1 = CHR ''x'' \<or> c1 = CHR ''X'')
          then Some (if r \<noteq> [] \<and> list_all isHexDigit r
                     then toDouble (of_nat (radixValue 16 r)) else NaN)
          else if c0 = CHR ''0'' \<and> (c1 = CHR ''o'' \<or> c1 = CHR ''O'')
          then Some (if r \<noteq> [] \<and> list_all isOctalDigit r
                     then toDouble (of_nat (radixValue 8 r)) else NaN)
          else if c0 = CHR ''0'' \<and> (c1 = CHR ''b'' \<or> c1 = CHR ''B'')
          then Some (if r \<noteq> [] \<and> list_all isBinaryDigit r
                     then toDouble (of_nat (radixValue 2 r)) else NaN)
          else None
      | _ \<Rightarrow> None)"

definition Number :: "string \<Rightarrow> jsnum" where
  "Number s =
     (let t = trim s
      in if t = [] then Fin 0
         else (case nonDecimal t of
                 Some v \<Rightarrow> v
               | None \<Rightarrow>
                   if hd t = CHR ''+'' then unsignedDecimal (tl t)
                   else if hd t = CHR ''-'' then num_neg (unsignedDecimal (tl t))
                   else unsignedDecimal t))"

text \<open>\<open>split(':')\<close>.\<close>

fun split_colon :: "string \<Rightarrow> string list" where
  "split_colon [] = [[]]"
| "split_colon (c # cs) =
     (if c = CHR '':'' then [] # split_colon cs
      else (case split_colon cs of p # ps \<Rightarrow> (c # p) # ps | [] \<Rightarrow> [[c]]))"

text \<open>
  \<open>const [hour, minute] = timeStr.split(':').map(Number)\<close>: without a colon \<open>minute\<close> is
  undefined, which is \<open>NaN\<close> in the sum and in \<open>setHours\<close>.
\<close>

definition parseSlot :: "string \<Rightarrow> jsnum \<times> jsnum" where
  "parseSlot timeStr =
     (case map Number (split_colon timeStr) of
        h # m # _ \<Rightarrow> (h, m)
      | [h] \<Rightarrow> (h, NaN)
      | [] \<Rightarrow> (NaN, NaN))"

text \<open>
  A \<open>Date\<close> is its time value, \<open>None\<close> when it is invalid. \<open>getHours\<close> and \<open>getMinutes\<close>
  are given here on the local time value.
\<close>

definition msPerDay :: int where "msPerDay = 86400000"

definition getHours :: "int \<Rightarrow> int" where
  "getHours t = (t div 3600000) mod 24"

definition getMinutes :: "int \<Rightarrow> int" where
  "getMinutes t = (t div 60000) mod 60"

text \<open>\<open>TimeClip\<close>: a valid time value is at most 8.64e15 away from the epoch.\<close>

definition maxTime :: int where "maxTime = 8640000000000000"

definition timeClip :: "int \<Rightarrow> int option" where
  "timeClip u = (if \<bar>u\<bar> \<le> maxTime then Some u else None)"

text \<open>
  \<open>MakeTime(hour, minute, 0, 0)\<close>: the arguments lose their fractions, and the products
  and the sum are those of doubles.
\<close>

definition makeTime :: "jsnum \<Rightarrow> jsnum \<Rightarrow> jsnum" where
  "makeTime hour minute =
     (case (toInteger hour, toInteger minute) of
        (Some h, Some m) \<Rightarrow>
          num_add (toDouble (of_int h * 3600000)) (toDouble (of_int m * 60000))
      | _ \<Rightarrow> NaN)"

text \<open>
  \<open>setHours(hour, minute, 0, 0)\<close> on a valid \<open>Date\<close> with the time value \<open>tv\<close>: the day of
  its local time value with the new time of day (\<open>MakeDate\<close>), taken back to an instant
  and clipped. A time that is not finite makes the \<open>Date\<close> invalid.
\<close>

definition setHours :: "runtime \<Rightarrow> int \<Rightarrow> jsnum \<Rightarrow> jsnum \<Rightarrow> int option" where
  "setHours rt tv hour minute =
     (case num_add (toDouble (of_int ((localTime rt tv div msPerDay) * msPerDay)))
                   (makeTime hour minute) of
        Fin d \<Rightarrow> timeClip (utcTime rt \<lfloor>d\<rfloor>)
      | _ \<Rightarrow> None)"

text \<open>
  \<open>setDate(getDate() + 1)\<close> on a valid \<open>Date\<close>: the same time of day on the next day of
  the calendar.
\<close>

definition setNextDate :: "runtime \<Rightarrow> int \<Rightarrow> int option" where
  "setNextDate rt tv = timeClip (utcTime rt (localTime rt tv + msPerDay))"

text \<open>\<open>toISOString()\<close>, which throws a RangeError on an invalid \<open>Date\<close>.\<close>

definition toISOString :: "runtime \<Rightarrow> int option \<Rightarrow> js_error + string" where
  "toISOString rt d = (case d of None \<Rightarrow> Inl RangeError | Some u \<Rightarrow> Inr (isoUtc rt u))"

text \<open>The loop over \<open>times\<close>: the first slot with \<open>hour * 60 + minute > currentTime\<close>.\<close>

fun firstLater :: "int \<Rightarrow> string list \<Rightarrow> (jsnum \<times> jsnum) option" where
  "firstLater cur [] = None"
| "firstLater cur (ts # rest) =
     (case parseSlot ts of
        (hour, minute) \<Rightarrow>
          if num_gt (num_add (num_times60 hour) minute) cur then Some (hour, minute)
          else firstLater cur rest)"

text \<open>\<open>config.settings.schedule.timezone || 'Asia/Bangkok'\<close>.\<close>

definition zoneOf :: "config \<Rightarrow> string" where
  "zoneOf c = (if truthyStr (timezone c) then the (timezone c) else ''Asia/Bangkok'')"

text \<open>
  \<open>tzNow = new Date(now.toLocaleString('en-US', {timeZone}))\<close>, for the clock reading
  \<open>now\<close>. \<open>toLocaleString\<close> throws a RangeError on a name that is not a time zone; else it
  prints what the clock of that zone shows, to the second, and \<open>new Date\<close> reads the
  string as a time of the zone the process runs in (the reading is of the present era, on
  which the string reads back as printed). So the local time value of \<open>tzNow\<close>, in the
  zone of the process, is what the clock of the configured zone shows.
\<close>

definition tzNow :: "runtime \<Rightarrow> config \<Rightarrow> int \<Rightarrow> js_error + int option" where
  "tzNow rt c now =
     (case wallClock rt (zoneOf c) now of
        None \<Rightarrow> Inl RangeError
      | Some z \<Rightarrow> Inr (timeClip (utcTime rt ((z div 1000) * 1000))))"

text \<open>
  \<open>getNextScheduleTime\<close>, with the clock reading of its \<open>new Date()\<close>. On an invalid
  \<open>tzNow\<close> the time of day is \<open>NaN\<close>, no slot is later, and the \<open>Date\<close> of the next day is
  invalid too. \<open>times[0]\<close> of an empty list is undefined, and \<open>split\<close> on it a TypeError.
\<close>

definition getNextScheduleTime :: "runtime \<Rightarrow> config \<Rightarrow> int \<Rightarrow> js_error + string" where
  "getNextScheduleTime rt c now =
     (case tzNow rt c now of
        Inl e \<Rightarrow> Inl e
      | Inr None \<Rightarrow> (case post_times c of [] \<Rightarrow> Inl TypeError | t0 # _ \<Rightarrow> Inl RangeError)
      | Inr (Some tv) \<Rightarrow>
          (let currentTime = getHours (localTime rt tv) * 60 + getMinutes (localTime rt tv)
           in case firstLater currentTime (post_times c) of
                Some (hour, minute) \<Rightarrow> toISOString rt (setHours rt tv hour minute)
              | None \<Rightarrow>
                  (case post_times c of
                     [] \<Rightarrow> Inl TypeError
                   | t0 # _ \<Rightarrow>
                       (case parseSlot t0 of
                          (firstHour, firstMinute) \<Rightarrow>
                            (case setNextDate rt tv of
                               None \<Rightarrow> Inl RangeError
                             | Some tomorrow \<Rightarrow>
                                 toISOString rt
                                   (setHours rt tomorrow firstHour firstMinute))))))"

text \<open>\<open>Array.prototype.slice(0, n)\<close> for an integer \<open>n\<close>: a negative end counts from the end.\<close>

definition slice0 :: "'a list \<Rightarrow> int \<Rightarrow> 'a list" where
  "slice0 xs n = (if n < 0 then take (nat (int (length xs) + n)) xs else take (nat n) xs)"

definition postsPerDay :: "config \<Rightarrow> int" where
  "postsPerDay c = (case posts_per_day c of None \<Rightarrow> 2 | Some n \<Rightarrow> if n = 0 then 2 else n)"

text \<open>
  The items of \<open>unscheduled\<close> and \<open>toSchedule\<close> are the objects of \<open>queue.pending\<close>
  themselves, so they are kept as positions in \<open>pending\<close>.
\<close>

definition unscheduled :: "item list \<Rightarrow> nat list" where
  "unscheduled ps = filter (\<lambda>i. \<not> truthyStr (scheduledFor (ps ! i))) [0..<length ps]"

definition toSchedule :: "config \<Rightarrow> item list \<Rightarrow> nat list" where
  "toSchedule c ps = slice0 (unscheduled ps) (postsPerDay c)"

text \<open>
  The loop of \<open>schedulePosts\<close>. Every call of \<open>getNextScheduleTime\<close> reads the clock
  again: \<open>nows k\<close> is the reading of the \<open>k\<close>-th call. An exception leaves the loop.
\<close>

fun scheduleLoop ::
  "runtime \<Rightarrow> config \<Rightarrow> (nat \<Rightarrow> int) \<Rightarrow> nat list \<Rightarrow> nat \<Rightarrow> item list \<Rightarrow> js_error + item list"
where
  "scheduleLoop rt c nows [] k ps = Inr ps"
| "scheduleLoop rt c nows (i # is) k ps =
     (case getNextScheduleTime rt c (nows k) of
        Inl e \<Rightarrow> Inl e
      | Inr s \<Rightarrow> scheduleLoop rt c nows is (Suc k) (ps[i := (ps ! i)\<lparr>scheduledFor := Some s\<rparr>]))"

text \<open>
  \<open>schedulePosts\<close> on the persisted queue \<open>q\<close>: the exception it ends with, if any, and the
  queues it hands to \<open>saveQueue\<close>, in order.
\<close>

definition schedulePosts ::
  "runtime \<Rightarrow> config \<Rightarrow> (nat \<Rightarrow> int) \<Rightarrow> queue \<Rightarrow> js_error option \<times> queue list"
where
  "schedulePosts rt c nows q =
     (if unscheduled (pending q) = [] then (None, [])
      else (case scheduleLoop rt c nows (toSchedule c (pending q)) 0 (pending q) of
              Inl e \<Rightarrow> (Some e, [])
            | Inr ps \<Rightarrow> (None, [q\<lparr>pending := ps\<rparr>])))"

section \<open>Ingestion\<close>

datatype add_result =
    Invalid "string list"
  | Duplicate
  | Added item
  | Thrown js_error

text \<open>The item \<open>addToQueue\<close> builds; \<open>nowId\<close> and \<open>nowAdded\<close> are its two clock readings.\<close>

definition newItem :: "runtime \<Rightarrow> int \<Rightarrow> int \<Rightarrow> content \<Rightarrow> item" where
  "newItem rt nowId nowAdded c =
     \<lparr>item_id = toString nowId,
      source = content_source c,
      item_text = tmpl (content_text c),
      mediaUrl = orNull (content_mediaUrl c),
      mediaType = (if truthy (content_mediaType c) then tmpl (content_mediaType c) else ''text''),
      telegramFileId = orNull (content_telegramFileId c),
      contentHash = Some (generateContentHash rt (content_text c) (content_mediaType c)),
      addedAt = isoUtc rt nowAdded,
      scheduledFor = None,
      status = Pending,
      postedAt = None,
      facebookPostId = None,
      error = None\<rparr>"

text \<open>
  \<open>addToQueue\<close> on the persisted queue \<open>q\<close>: what it returns (or the exception of
  \<open>schedulePosts\<close>, which it does not catch) and the queues written, in order.
  \<open>schedulePosts\<close> loads what was just saved.
\<close>

definition addToQueue ::
  "runtime \<Rightarrow> config \<Rightarrow> int \<Rightarrow> int \<Rightarrow> (nat \<Rightarrow> int) \<Rightarrow> queue \<Rightarrow> content
     \<Rightarrow> add_result \<times> queue list"
where
  "addToQueue rt c nowId nowAdded nows q cnt =
     (let validation = validateInput cnt in
      if \<not> valid validation then (Invalid (errors validation), [])
      else
        (let contentHash = generateContentHash rt (content_text cnt) (content_mediaType cnt);
             (dup, q1) = isDuplicateContent q contentHash
         in if dup then (Duplicate, [])
            else
              (let it = newItem rt nowId nowAdded cnt;
                   q2 = q1\<lparr>pending := pending q1 @ [it]\<rparr>;
                   (exn, saves) = schedulePosts rt c nows q2
               in case exn of
                    Some e \<Rightarrow> (Thrown e, q2 # saves)
                  | None \<Rightarrow> (Added it, q2 # saves))))"

section \<open>The delivery pipeline\<close>

text \<open>
  What is outside the process is an input of each delivery attempt: the clock readings
  (\<open>Date.now()\<close> for the dry-run id, in \<open>checkRateLimit\<close>, for the name of the downloaded
  file and in \<open>updateRateLimit\<close>) and the answers of Telegram and of the Graph API. An
  answer is an exception with its message (a network failure, an unreadable body) or a
  reply. Writing to the logs is not modelled.
\<close>

datatype netcall =
    TgGetFile | TgDownload
  | FbVideoStart | FbVideoTransfer | FbVideoFinish
  | FbPhotoUpload | FbPhotoUrl | FbFeed

datatype 'a response = Threw string | Replied 'a

text \<open>The JSON of a Graph API reply: \<open>error.message\<close> when it has an \<open>error\<close>, and \<open>id\<close>.\<close>

record fb_reply =
  reply_error :: "string option"
  reply_id :: "string option"

text \<open>
  \<open>tg_getFile\<close> replies with \<open>result.file_path\<close>, or \<open>None\<close> when \<open>ok\<close> or \<open>result\<close> is
  missing; \<open>tg_download\<close> replies with the HTTP status.
\<close>

record attempt_env =
  now_dry :: int
  now_gate :: int
  now_file :: int
  now_done :: int
  tg_getFile :: "string option response"
  tg_download :: "nat response"
  fb :: "netcall \<Rightarrow> fb_reply response"

text \<open>The state outside the queue: \<open>rateLimiter.lastPostTime\<close> and the files that exist.\<close>

record world =
  rl_lastPostTime :: int
  files :: "string set"

definition minInterval :: int where "minInterval = 60000"

record rate_check =
  allowed :: bool
  waitTime :: int
  message :: string

definition checkRateLimit :: "world \<Rightarrow> int \<Rightarrow> rate_check" where
  "checkRateLimit w now =
     (let timeSinceLastPost = now - rl_lastPostTime w in
      if timeSinceLastPost < minInterval
      then (let wt = - ((- (minInterval - timeSinceLastPost)) div 1000)
            in \<lparr>allowed = False, waitTime = wt,
                message = ''Rate limit exceeded. Please wait '' @ toString wt
                          @ '' seconds before next post.''\<rparr>)
      else \<lparr>allowed = True, waitTime = 0, message = []\<rparr>)"

definition updateRateLimit :: "world \<Rightarrow> int \<Rightarrow> world" where
  "updateRateLimit w now = w\<lparr>rl_lastPostTime := now\<rparr>"

fun join_comma :: "string list \<Rightarrow> string" where
  "join_comma [] = []"
| "join_comma [x] = x"
| "join_comma (x # y # ys) = x @ '', '' @ join_comma (y # ys)"

definition missingOrPlaceholder :: "string option \<Rightarrow> bool" where
  "missingOrPlaceholder v = (\<not> truthyStr v \<or> str_includes (the v) ''YOUR_'')"

definition validateConfig :: "config \<Rightarrow> validation" where
  "validateConfig c =
     (let e1 = (if missingOrPlaceholder (page_id c)
                then [''Facebook Page ID is required''] else []);
          e2 = (if missingOrPlaceholder (access_token c)
                then [''Facebook Access Token is required''] else [])
      in \<lparr>valid = (e1 @ e2 = []), errors = e1 @ e2\<rparr>)"

text \<open>\<open>path.basename\<close> (POSIX): the last segment, trailing slashes dropped.\<close>

definition basename :: "string \<Rightarrow> string" where
  "basename p =
     rev (takeWhile (\<lambda>c. c \<noteq> CHR ''/'') (dropWhile (\<lambda>c. c = CHR ''/'') (rev p)))"

text \<open>\<open>Response.ok\<close>.\<close>

definition http_ok :: "nat \<Rightarrow> bool" where
  "http_ok st = (200 \<le> st \<and> st \<le> 299)"

text \<open>
  \<open>downloadTelegramFile\<close>: the local path or the exception's message, the network calls
  made, and the files afterwards. \<open>TEMP_DIR\<close> is a normalised absolute path, and the file
  name has no slash, so \<open>path.join\<close> puts one slash between them.
\<close>

definition downloadTelegramFile ::
  "runtime \<Rightarrow> attempt_env \<Rightarrow> string set \<Rightarrow> (string + string) \<times> netcall list \<times> string set"
where
  "downloadTelegramFile rt env fs =
     (case tg_getFile env of
        Threw m \<Rightarrow> (Inl (''Telegram download failed: '' @ m), [TgGetFile], fs)
      | Replied None \<Rightarrow>
          (Inl (''Telegram download failed: Failed to get file info from Telegram''),
           [TgGetFile], fs)
      | Replied (Some filePath) \<Rightarrow>
          (let fileName = basename filePath;
               localPath = TEMP_DIR rt @ ''/'' @ toString (now_file env) @ ''_'' @ fileName
           in case tg_download env of
                Threw m \<Rightarrow>
                  (Inl (''Telegram download failed: '' @ m), [TgGetFile, TgDownload], fs)
              | Replied st \<Rightarrow>
                  if \<not> http_ok st
                  then (Inl (''Telegram download failed: Failed to download file: ''
                             @ toString (int st)),
                        [TgGetFile, TgDownload], fs)
                  else (Inr localPath, [TgGetFile, TgDownload], insert localPath fs)))"

text \<open>
  \<open>cleanupTempFile\<close>; \<open>unlinkSync\<close> of a file that exists removes it (its failure, which
  the source catches and logs, is not modelled).
\<close>

definition cleanupTempFile :: "runtime \<Rightarrow> string \<Rightarrow> string set \<Rightarrow> string set" where
  "cleanupTempFile rt filePath fs =
     (if filePath \<noteq> [] \<and> filePath \<in> fs \<and> str_includes filePath (TEMP_DIR rt)
      then fs - {filePath} else fs)"

text \<open>One request to the Graph API whose JSON is the result.\<close>

definition fbCall :: "attempt_env \<Rightarrow> netcall \<Rightarrow> (string + fb_reply) \<times> netcall list" where
  "fbCall env call =
     (case fb env call of
        Threw m \<Rightarrow> (Inl m, [call])
      | Replied r \<Rightarrow> (Inr r, [call]))"

text \<open>\<open>postVideoToFacebook\<close>: start, transfer, finish; an error reply ends it.\<close>

definition postVideoToFacebook :: "attempt_env \<Rightarrow> (string + fb_reply) \<times> netcall list" where
  "postVideoToFacebook env =
     (case fb env FbVideoStart of
        Threw m \<Rightarrow> (Inl m, [FbVideoStart])
      | Replied r1 \<Rightarrow>
          (case reply_error r1 of
             Some m \<Rightarrow> (Inl (''Video Init failed: '' @ m), [FbVideoStart])
           | None \<Rightarrow>
               (case fb env FbVideoTransfer of
                  Threw m \<Rightarrow> (Inl m, [FbVideoStart, FbVideoTransfer])
                | Replied r2 \<Rightarrow>
                    (case reply_error r2 of
                       Some m \<Rightarrow>
                         (Inl (''Video Transfer failed: '' @ m), [FbVideoStart, FbVideoTransfer])
                     | None \<Rightarrow>
                         (case fb env FbVideoFinish of
                            Threw m \<Rightarrow>
                              (Inl m, [FbVideoStart, FbVideoTransfer, FbVideoFinish])
                          | Replied r3 \<Rightarrow>
                              (case reply_error r3 of
                                 Some m \<Rightarrow>
                                   (Inl (''Video Finish failed: '' @ m),
                                    [FbVideoStart, FbVideoTransfer, FbVideoFinish])
                               | None \<Rightarrow>
                                   (Inr r3,
                                    [FbVideoStart, FbVideoTransfer, FbVideoFinish])))))))"

text \<open>The choice of the publish operation inside the \<open>try\<close> block.\<close>

definition publish ::
  "item \<Rightarrow> attempt_env \<Rightarrow> string option \<Rightarrow> string set \<Rightarrow> (string + fb_reply) \<times> netcall list"
where
  "publish it env mediaPath fs =
     (if mediaType it = ''video'' \<and> truthyStr mediaPath \<and> the mediaPath \<in> fs
      then postVideoToFacebook env
      else if mediaType it = ''image'' \<and> truthyStr mediaPath \<and> the mediaPath \<in> fs
      then fbCall env FbPhotoUpload
      else if mediaType it = ''image'' \<and> truthyStr mediaPath
      then fbCall env FbPhotoUrl
      else fbCall env FbFeed)"

text \<open>What \<open>postToFacebook\<close> returns: \<open>result.id\<close> and whether it is the dry-run object.\<close>

record fb_result =
  res_id :: "string option"
  dryRun :: bool

text \<open>
  The \<open>try\<close> block of \<open>postToFacebook\<close> with its \<open>finally\<close> clause, which runs on both
  ways out: the result or the message of the exception, the network calls made in order,
  and the state afterwards.
\<close>

definition deliver ::
  "runtime \<Rightarrow> config \<Rightarrow> item \<Rightarrow> attempt_env \<Rightarrow> world
     \<Rightarrow> (string + fb_result) \<times> netcall list \<times> world"
where
  "deliver rt c it env w =
     (if truthyStr (telegramFileId it) \<and> truthyStr (bot_token c)
      then
        (case downloadTelegramFile rt env (files w) of
           (Inl m, calls1, fs1) \<Rightarrow> (Inl m, calls1, w\<lparr>files := fs1\<rparr>)
         | (Inr tempFilePath, calls1, fs1) \<Rightarrow>
             (case publish it env (Some tempFilePath) fs1 of
                (Inl m, calls2) \<Rightarrow>
                  (Inl m, calls1 @ calls2,
                   w\<lparr>files := cleanupTempFile rt tempFilePath fs1\<rparr>)
              | (Inr r, calls2) \<Rightarrow>
                  (case reply_error r of
                     Some m \<Rightarrow>
                       (Inl m, calls1 @ calls2,
                        w\<lparr>files := cleanupTempFile rt tempFilePath fs1\<rparr>)
                   | None \<Rightarrow>
                       (Inr \<lparr>res_id = reply_id r, dryRun = False\<rparr>, calls1 @ calls2,
                        (updateRateLimit w (now_done env))
                          \<lparr>files := cleanupTempFile rt tempFilePath fs1\<rparr>))))
      else
        (case publish it env (mediaUrl it) (files w) of
           (Inl m, calls2) \<Rightarrow> (Inl m, calls2, w)
         | (Inr r, calls2) \<Rightarrow>
             (case reply_error r of
                Some m \<Rightarrow> (Inl m, calls2, w)
              | None \<Rightarrow>
                  (Inr \<lparr>res_id = reply_id r, dryRun = False\<rparr>, calls2,
                   updateRateLimit w (now_done env)))))"

text \<open>\<open>postToFacebook\<close>: the dry-run return, the two gates, then the \<open>try\<close> block.\<close>

definition postToFacebook ::
  "runtime \<Rightarrow> config \<Rightarrow> item \<Rightarrow> attempt_env \<Rightarrow> world
     \<Rightarrow> (string + fb_result) \<times> netcall list \<times> world"
where
  "postToFacebook rt c it env w =
     (if dry_run c
      then (Inr \<lparr>res_id = Some (''dry-run-'' @ toString (now_dry env)), dryRun = True\<rparr>, [], w)
      else
        (let validation = validateConfig c in
         if \<not> valid validation
         then (Inl (''Config error: '' @ join_comma (errors validation)), [], w)
         else
           (let rateLimit = checkRateLimit w (now_gate env) in
            if \<not> allowed rateLimit then (Inl (message rateLimit), [], w)
            else deliver rt c it env w)))"

section \<open>The queue processor\<close>

text \<open>Lines 457 to 461: the hash of a posted item enters \<open>postedHashes\<close>.\<close>

definition pushPostedHash :: "string option \<Rightarrow> string list option \<Rightarrow> string list option" where
  "pushPostedHash ch ph =
     (let hs = (case ph of None \<Rightarrow> [] | Some hs \<Rightarrow> hs) in
      if truthyStr ch \<and> the ch \<notin> set hs
      then (let hs' = hs @ [the ch] in Some (if length hs' > 1000 then tl hs' else hs'))
      else Some hs)"

definition isDue :: "string \<Rightarrow> item \<Rightarrow> bool" where
  "isDue nowIso it =
     ((item_text it \<noteq> [] \<and> str_includes (item_text it) ''#now'')
      \<or> (truthyStr (scheduledFor it) \<and> str_le (the (scheduledFor it)) nowIso))"

text \<open>
  The items of \<open>duePosts\<close> are the objects of \<open>queue.pending\<close> themselves: the loop changes
  them in place, whether or not they are still in \<open>queue.pending\<close>. An object is therefore
  kept with its position in the loaded \<open>pending\<close>, which identifies it.
\<close>

definition tagged :: "item list \<Rightarrow> (nat \<times> item) list" where
  "tagged ps = zip [0..<length ps] ps"

definition duePosts :: "string \<Rightarrow> item list \<Rightarrow> (nat \<times> item) list" where
  "duePosts nowIso ps = filter (\<lambda>(t, it). isDue nowIso it) (tagged ps)"

text \<open>
  The state of a pass: the queue in memory, the state outside it, the network calls made
  and, per attempt, the object and how \<open>postToFacebook\<close> ended (what the pass logs).
\<close>

record pstate =
  ps_pending :: "(nat \<times> item) list"
  ps_posted :: "item list"
  ps_hashes :: "string list option"
  ps_world :: world
  ps_calls :: "netcall list"
  ps_attempts :: "(nat \<times> (string + fb_result)) list"

text \<open>The body of the loop for one due object.\<close>

definition processItem ::
  "runtime \<Rightarrow> config \<Rightarrow> string \<Rightarrow> attempt_env \<Rightarrow> nat \<times> item \<Rightarrow> pstate \<Rightarrow> pstate"
where
  "processItem rt c nowIso env ti st =
     (case ti of (t, it) \<Rightarrow>
       (case postToFacebook rt c it env (ps_world st) of
          (Inr result, calls, w') \<Rightarrow>
            st\<lparr>ps_posted := ps_posted st
                  @ [it\<lparr>postedAt := Some nowIso, facebookPostId := res_id result,
                        status := Posted\<rparr>],
               ps_pending := filter (\<lambda>(t', p). item_id p \<noteq> item_id it) (ps_pending st),
               ps_hashes := pushPostedHash (contentHash it) (ps_hashes st),
               ps_world := w',
               ps_calls := ps_calls st @ calls,
               ps_attempts := ps_attempts st @ [(t, Inr result)]\<rparr>
        | (Inl msg, calls, w') \<Rightarrow>
            st\<lparr>ps_pending :=
                 map (\<lambda>(t', p). if t' = t then (t', p\<lparr>status := Failed, error := Some msg\<rparr>)
                                else (t', p))
                     (ps_pending st),
               ps_world := w',
               ps_calls := ps_calls st @ calls,
               ps_attempts := ps_attempts st @ [(t, Inl msg)]\<rparr>))"

text \<open>The loop: the \<open>k\<close>-th attempt of the pass meets the environment \<open>envs k\<close>.\<close>

fun processLoop ::
  "runtime \<Rightarrow> config \<Rightarrow> string \<Rightarrow> (nat \<Rightarrow> attempt_env) \<Rightarrow> (nat \<times> item) list \<Rightarrow> nat
     \<Rightarrow> pstate \<Rightarrow> pstate"
where
  "processLoop rt c nowIso envs [] k st = st"
| "processLoop rt c nowIso envs (ti # rest) k st =
     processLoop rt c nowIso envs rest (Suc k) (processItem rt c nowIso (envs k) ti st)"

definition startState :: "world \<Rightarrow> queue \<Rightarrow> pstate" where
  "startState w q =
     \<lparr>ps_pending = tagged (pending q), ps_posted = posted q, ps_hashes = postedHashes q,
      ps_world = w, ps_calls = [], ps_attempts = []\<rparr>"

definition queueOf :: "queue \<Rightarrow> pstate \<Rightarrow> queue" where
  "queueOf q st =
     q\<lparr>pending := map snd (ps_pending st), posted := ps_posted st,
       postedHashes := ps_hashes st\<rparr>"

text \<open>
  \<open>processScheduledPosts\<close> on the persisted queue \<open>q\<close>, started at the instant \<open>now\<close>: the
  queues handed to \<open>saveQueue\<close>, in order, and the state the loop ends in.
\<close>

definition processScheduledPosts ::
  "runtime \<Rightarrow> config \<Rightarrow> int \<Rightarrow> (nat \<Rightarrow> attempt_env) \<Rightarrow> world \<Rightarrow> queue
     \<Rightarrow> queue list \<times> pstate"
where
  "processScheduledPosts rt c now envs w q =
     (let nowIso = isoUtc rt now;
          st = processLoop rt c nowIso envs (duePosts nowIso (pending q)) 0 (startState w q)
      in ([queueOf q st], st))"

section \<open>Notions of the specification and example data\<close>

text \<open>The persisted queue after an operation that made the given writes.\<close>

definition storeAfter :: "queue \<Rightarrow> queue list \<Rightarrow> queue" where
  "storeAfter q saves = (if saves = [] then q else last saves)"

text \<open>The \<open>postedHashes\<close> of a queue, a missing key read as the empty list.\<close>

definition knownHashes :: "queue \<Rightarrow> string list" where
  "knownHashes q = (case postedHashes q of None \<Rightarrow> [] | Some hs \<Rightarrow> hs)"

text \<open>
  A runtime, a configuration and an input on which the model is evaluated. The process of
  the runtime runs in UTC; the hash is the text itself and \<open>toISOString\<close> prints the time
  value in decimal.
\<close>

definition exampleRuntime :: runtime where
  "exampleRuntime =
     \<lparr>sha256hex = (\<lambda>s. s),
      wallClock = (\<lambda>z t. if z = ''Asia/Bangkok'' then Some (t + 25200000)
                         else if z = ''Asia/Tokyo'' then Some (t + 32400000)
                         else if z = ''UTC'' then Some t else None),
      localTime = (\<lambda>t. t), utcTime = (\<lambda>t. t), isoUtc = toString,
      TEMP_DIR = ''/app/temp''\<rparr>"

definition exampleConfig :: config where
  "exampleConfig =
     \<lparr>page_id = Some ''123'', access_token = Some ''tok'', api_version = Some ''v18.0'',
      bot_token = Some ''bot'', dry_run = False, post_times = [''09:00'', ''18:00''],
      timezone = None, posts_per_day = None\<rparr>"

definition exampleContent :: content where
  "exampleContent =
     \<lparr>content_source = Str ''chat'', content_text = Str ''hello'',
      content_mediaUrl = Null, content_mediaType = Undefined, content_telegramFileId = Null\<rparr>"

text \<open>
  \<open>postedHashes\<close> after the items \<open>its\<close> have been delivered with success, in this order,
  each through lines 457 to 461.
\<close>

definition postedHashesAfter :: "string list option \<Rightarrow> item list \<Rightarrow> string list option" where
  "postedHashesAfter ph its = foldl (\<lambda>a it. pushPostedHash (contentHash it) a) ph its"

text \<open>A \<open>postedHashes\<close> value as a list, a missing key read as the empty list.\<close>

definition hashesOf :: "string list option \<Rightarrow> string list" where
  "hashesOf ph = (case ph of None \<Rightarrow> [] | Some hs \<Rightarrow> hs)"

text \<open>An item with the given hash.\<close>

definition itemWithHash :: "string \<Rightarrow> item" where
  "itemWithHash h =
     \<lparr>item_id = h, source = Undefined, item_text = ''post'', mediaUrl = None,
      mediaType = ''text'', telegramFileId = None, contentHash = Some h, addedAt = [],
      scheduledFor = None, status = Pending, postedAt = None, facebookPostId = None,
      error = None\<rparr>"

text \<open>A queue with three unscheduled items and one that has a slot.\<close>

definition exampleQueue :: queue where
  "exampleQueue =
     \<lparr>pending = [itemWithHash ''a'', (itemWithHash ''b'')\<lparr>scheduledFor := Some ''1970''\<rparr>,
                 itemWithHash ''c'', itemWithHash ''d''],
      posted = [], lastPostTime = None, postedHashes = Some []\<rparr>"

text \<open>
  A path lies under a directory when it continues the directory's path after a slash.
\<close>

definition liesUnder :: "string \<Rightarrow> string \<Rightarrow> bool" where
  "liesUnder dir p = prefix (dir @ ''/'') p"

text \<open>An item as the processor leaves it after a delivery and after a failure.\<close>

definition markedPosted :: "string \<Rightarrow> string option \<Rightarrow> item \<Rightarrow> item" where
  "markedPosted nowIso fid it = it\<lparr>postedAt := Some nowIso, facebookPostId := fid, status := Posted\<rparr>"

definition markedFailed :: "string \<Rightarrow> item \<Rightarrow> item" where
  "markedFailed msg it = it\<lparr>status := Failed, error := Some msg\<rparr>"

text \<open>
  The two changes of \<open>queue.pending\<close> in the loop of the processor: the filter by id after
  a delivery, and the marking of the object that failed.
\<close>

definition dropId :: "string \<Rightarrow> (nat \<times> item) list \<Rightarrow> (nat \<times> item) list" where
  "dropId i ps = filter (\<lambda>(t', p). item_id p \<noteq> i) ps"

definition failTag :: "nat \<Rightarrow> string \<Rightarrow> (nat \<times> item) list \<Rightarrow> (nat \<times> item) list" where
  "failTag t msg ps = map (\<lambda>(t', p). if t' = t then (t', markedFailed msg p) else (t', p)) ps"

text \<open>
  The partition of the queue: no pending item has the status \<open>posted\<close>, no id occurs in
  both collections, and no id occurs twice.
\<close>

definition queueInvariant :: "queue \<Rightarrow> bool" where
  "queueInvariant q =
     ((\<forall>p \<in> set (pending q). status p \<noteq> Posted)
      \<and> set (map item_id (pending q)) \<inter> set (map item_id (posted q)) = {}
      \<and> distinct (map item_id (pending q @ posted q)))"

text \<open>
  The state of the loop of the processor with the due objects still to come: they are
  in \<open>pending\<close> as they were loaded, and the queue in memory is partitioned.
\<close>

definition loopInv :: "(nat \<times> item) list \<Rightarrow> pstate \<Rightarrow> bool" where
  "loopInv due st =
     (distinct (map fst due) \<and> set due \<subseteq> set (ps_pending st)
      \<and> distinct (map fst (ps_pending st))
      \<and> distinct (map (\<lambda>x. item_id (snd x)) (ps_pending st) @ map item_id (ps_posted st))
      \<and> (\<forall>(t, p) \<in> set (ps_pending st). status p \<noteq> Posted))"

text \<open>
  Example data: a state outside the queue; an attempt at instant \<open>t\<close> that every service
  answers with success; a pass whose \<open>k\<close>-th attempt comes \<open>k\<close> milliseconds after 100000; an
  item due at once; a second input; the queue after a first ingestion at instant 1000;
  queues with two due items, with different ids and with one id.
\<close>

definition exampleWorld :: world where
  "exampleWorld = \<lparr>rl_lastPostTime = 0, files = {}\<rparr>"

definition exampleEnv :: "int \<Rightarrow> attempt_env" where
  "exampleEnv t =
     \<lparr>now_dry = t, now_gate = t, now_file = t, now_done = t,
      tg_getFile = Replied (Some ''photos/file_1.jpg''), tg_download = Replied 200,
      fb = (\<lambda>call. Replied \<lparr>reply_error = None, reply_id = Some ''page_post''\<rparr>)\<rparr>"

definition nowItem :: "string \<Rightarrow> item" where
  "nowItem h = (itemWithHash h)\<lparr>item_text := ''post #now''\<rparr>"

definition otherContent :: content where
  "otherContent = exampleContent\<lparr>content_text := Str ''world''\<rparr>"

definition exampleClock :: "nat \<Rightarrow> int" where
  "exampleClock k = 36000000"

definition afterFirstAdd :: queue where
  "afterFirstAdd =
     storeAfter emptyQueue
       (snd (addToQueue exampleRuntime exampleConfig 1000 1001 exampleClock emptyQueue
               exampleContent))"

definition exampleEnvs :: "nat \<Rightarrow> attempt_env" where
  "exampleEnvs k = exampleEnv (100000 + int k)"

definition twoDue :: queue where
  "twoDue = emptyQueue\<lparr>pending := [nowItem ''a'', nowItem ''b'']\<rparr>"



text \<open>
  The example configuration with the zone of Tokyo, and clock readings of one run of the
  scheduler that pass 09:00 in Bangkok between the first call and the second.
\<close>

definition tokyoConfig :: config where
  "tokyoConfig = exampleConfig\<lparr>timezone := Some ''Asia/Tokyo''\<rparr>"

definition crossingClock :: "nat \<Rightarrow> int" where
  "crossingClock k = (if k = 0 then 7199999 else 7200000)"


text \<open>
  The deliveries of a pass that succeed, in order, each due object with what
  \<open>postToFacebook\<close> returned for it: the \<open>k\<close>-th attempt meets \<open>envs k\<close> and the state that
  the attempts before it left. \<open>deliveredInPass\<close> are those of \<open>processScheduledPosts\<close>, and
  \<open>deliveredHashes\<close> their hashes.
\<close>

fun delivered ::
  "runtime \<Rightarrow> config \<Rightarrow> (nat \<Rightarrow> attempt_env) \<Rightarrow> (nat \<times> item) list \<Rightarrow> nat \<Rightarrow> world
     \<Rightarrow> (item \<times> fb_result) list"
where
  "delivered rt c envs [] k w = []"
| "delivered rt c envs ((t, it) # rest) k w =
     (case postToFacebook rt c it (envs k) w of
        (Inr r, calls, w') \<Rightarrow> (it, r) # delivered rt c envs rest (Suc k) w'
      | (Inl m, calls, w') \<Rightarrow> delivered rt c envs rest (Suc k) w')"

definition deliveredInPass ::
  "runtime \<Rightarrow> config \<Rightarrow> int \<Rightarrow> (nat \<Rightarrow> attempt_env) \<Rightarrow> world \<Rightarrow> queue \<Rightarrow> (item \<times> fb_result) list"
where
  "deliveredInPass rt c now envs w q =
     delivered rt c envs (duePosts (isoUtc rt now) (pending q)) 0 w"

definition deliveredHashes :: "(item \<times> fb_result) list \<Rightarrow> string list" where
  "deliveredHashes ds = map (\<lambda>d. the (contentHash (fst d))) ds"

text \<open>
  More example data: a queue of \<open>n\<close> items due at once, with \<open>n\<close> different hashes, and a
  pass whose attempts are a minute apart; an item with a Telegram file, the path the
  download of the example attempt writes, a state in which that path and a file outside
  the scratch directory exist, and a queue with that item.
\<close>

definition manyDue :: "nat \<Rightarrow> queue" where
  "manyDue n = emptyQueue\<lparr>pending := map (\<lambda>k. nowItem (replicate (Suc k) CHR ''a'')) [0..<n]\<rparr>"

definition telegramItem :: item where
  "telegramItem = (nowItem ''a'')\<lparr>telegramFileId := Some ''file_1'', mediaType := ''image''\<rparr>"

definition downloadedPath :: string where
  "downloadedPath = ''/app/temp/100000_file_1.jpg''"

definition staleWorld :: world where
  "staleWorld = exampleWorld\<lparr>files := {downloadedPath, ''/app/config.json''}\<rparr>"

definition telegramQueue :: queue where
  "telegramQueue = emptyQueue\<lparr>pending := [telegramItem]\<rparr>"

definition spacedEnvs :: "nat \<Rightarrow> attempt_env" where
  "spacedEnvs k = exampleEnv (100000 + 60000 * int k)"

section \<open>Doubles\<close>

text \<open>An integer of magnitude below \<open>2 ^ 53\<close> is a double.\<close>

lemma bitLength_bounds: "0 < n \<Longrightarrow> 2 ^ (bitLength n - 1) \<le> n \<and> n < 2 ^ bitLength n"
proof (induction n rule: bitLength.induct)
  case (1 n)
  show ?case
  proof (cases "n div 2 = 0")
    case True
    with 1(2) have "n = 1" by (simp add: div_eq_0_iff)
    then show ?thesis by (simp add: bitLength.simps [of "Suc 0"] bitLength.simps [of 0])
  next
    case False
    with 1 have ih: "2 ^ (bitLength (n div 2) - 1) \<le> n div 2" "n div 2 < 2 ^ bitLength (n div 2)"
      by simp_all
    have b: "bitLength n = Suc (bitLength (n div 2))" using 1(2) by (simp add: bitLength.simps [of n])
    have pos: "0 < bitLength (n div 2)" using False by (simp add: bitLength.simps [of "n div 2"])
    define B :: nat where "B = 2 ^ (bitLength (n div 2) - 1)"
    have p: "(2::nat) ^ bitLength (n div 2) = 2 * B"
      unfolding B_def using pos by (cases "bitLength (n div 2)") simp_all
    from ih have "B \<le> n div 2" "n div 2 < 2 * B" unfolding p B_def by simp_all
    then have "2 * B \<le> n \<and> n < 2 * (2 * B)" by arith
    then show ?thesis unfolding b by (simp add: p)
  qed
qed

lemma roundHalfEven_int: "roundHalfEven (of_int k) = k"
  by (simp add: roundHalfEven_def)

lemma toDouble_int:
  assumes "\<bar>n\<bar> < 2 ^ 53"
  shows "toDouble (of_int n) = Fin (of_int n)"
proof (cases "n = 0")
  case True
  then show ?thesis by (simp add: toDouble_def)
next
  case False
  define M where "M = \<bar>n\<bar>"
  define b where "b = bitLength (nat M)"
  define k where "k = 53 - b"
  have m: "0 < nat M" using False by (simp add: M_def)
  note bb = bitLength_bounds [OF m]
  have m53: "nat M < 2 ^ 53" using assms by (simp add: nat_less_iff M_def)
  have "(2::nat) ^ (b - 1) \<le> nat M" unfolding b_def using bb by (rule conjunct1)
  also note m53
  finally have "(2::nat) ^ (b - 1) < 2 ^ 53" .
  then have b53: "b - 1 < 53" by (simp only: power_strict_increasing_iff [of 2])
  have bpos: "0 < b" unfolding b_def using m by (simp add: bitLength.simps [of "nat M"])
  have a: "\<bar>of_int n :: rat\<bar> = of_int M" by (simp add: M_def)
  have ge1: "(1::rat) \<le> of_int M" using False by (simp add: M_def)
  have e: "exponentOf (of_int M) = int b - 1"
    unfolding exponentOf_def b_def using ge1 by simp
  have q: "max (int b - 1) (- 1022) - 52 = - int k"
    using b53 bpos by (simp add: k_def)
  have p: "pow2 (- int k) = 1 / 2 ^ k" by (cases "k = 0") (simp_all add: pow2_def)
  have d: "of_int M / pow2 (- int k) = (of_int (M * 2 ^ k) :: rat)"
    by (simp add: p)
  have v: "of_int (roundHalfEven (of_int M / pow2 (- int k))) * pow2 (- int k)
           = (of_int M :: rat)"
    unfolding d roundHalfEven_int by (simp add: p)
  have "M < 2 ^ 53" using assms by (simp add: M_def)
  then have "(of_int M :: rat) < of_int (2 ^ 53)" by (simp only: of_int_less_iff)
  also have "\<dots> \<le> pow2 1024" by (simp add: pow2_def)
  finally have small: "\<not> pow2 1024 \<le> (of_int M :: rat)" by simp
  have "toDouble (of_int n) = Fin (if 0 < (of_int n :: rat) then of_int M else - of_int M)"
    using False small unfolding toDouble_def a Let_def e q v by simp
  also have "\<dots> = Fin (of_int n)" using False by (cases "0 < n") (simp_all add: M_def)
  finally show ?thesis .
qed

lemma toDouble_numeral:
  "(numeral w :: int) < 2 ^ 53 \<Longrightarrow> toDouble (numeral w) = Fin (numeral w)"
  using toDouble_int [of "numeral w"] by simp

lemma toDouble_zero: "toDouble 0 = Fin 0"
  by (simp add: toDouble_def)

lemma toDouble_one: "toDouble 1 = Fin 1"
  using toDouble_int [of 1] by simp

section \<open>The scheduler on the example data\<close>

lemmas num_defs =
  Number_def trim_def isWhiteSpace_def nonDecimal_def unsignedDecimal_def mantissa_def
  signedInteger_def radixValue_def digitValue_def isDigit_def isHexDigit_def isOctalDigit_def
  isBinaryDigit_def isExponentIndicator_def parseSlot_def

lemmas sched_defs =
  getNextScheduleTime_def tzNow_def zoneOf_def truthyStr_def getHours_def getMinutes_def
  toISOString_def setHours_def setNextDate_def makeTime_def timeClip_def msPerDay_def
  maxTime_def toDouble_numeral toDouble_zero

lemma example_fields:
  "sha256hex exampleRuntime = (\<lambda>s. s)" "isoUtc exampleRuntime = toString"
  "localTime exampleRuntime = (\<lambda>t. t)" "TEMP_DIR exampleRuntime = ''/app/temp''"
  "posts_per_day exampleConfig = None" "dry_run exampleConfig = False"
  "post_times exampleConfig = [''09:00'', ''18:00'']" "timezone exampleConfig = None"
  by (simp_all add: exampleRuntime_def exampleConfig_def)

lemma example_slots:
  "parseSlot ''09:00'' = (Fin 9, Fin 0)" "parseSlot ''18:00'' = (Fin 18, Fin 0)"
  by (simp_all add: num_defs toDouble_numeral toDouble_zero)

text \<open>
  In Bangkok, the default zone, the clock shows 17:00 on 1 January 1970 at the instant
  36000000, 08:59:59 at 7199999 and 09:00:00 at 7200000.
\<close>

lemma example_slot_afternoon:
  "getNextScheduleTime exampleRuntime exampleConfig 36000000 = Inr (toString 64800000)"
  by (simp add: sched_defs example_slots exampleRuntime_def exampleConfig_def)

lemma example_slot_before_nine:
  "getNextScheduleTime exampleRuntime exampleConfig 7199999 = Inr (toString 32400000)"
  by (simp add: sched_defs example_slots exampleRuntime_def exampleConfig_def)

lemma example_slot_at_nine:
  "getNextScheduleTime exampleRuntime exampleConfig 7200000 = Inr (toString 64800000)"
  by (simp add: sched_defs example_slots exampleRuntime_def exampleConfig_def)

section \<open>Ingestion: duplicates and rejection\<close>

lemma upd_erase: "(map f ps)[i := f (ps ! i)] = map f ps"
proof (cases "i < length ps")
  case True
  then have "(map f ps)[i := (map f ps) ! i] = map f ps" by (simp only: list_update_id)
  with True show ?thesis by simp
next
  case False
  then show ?thesis by (simp add: list_update_beyond)
qed

lemma scheduleLoop_erase:
  "scheduleLoop rt c nows is k ps = Inr ps' \<Longrightarrow>
   map (\<lambda>p. p\<lparr>scheduledFor := None\<rparr>) ps' = map (\<lambda>p. p\<lparr>scheduledFor := None\<rparr>) ps"
proof (induction "is" arbitrary: k ps)
  case Nil
  then show ?case by simp
next
  case (Cons i "is")
  from Cons.prems obtain s where
    s: "getNextScheduleTime rt c (nows k) = Inr s"
    and rest: "scheduleLoop rt c nows is (Suc k) (ps[i := (ps ! i)\<lparr>scheduledFor := Some s\<rparr>]) = Inr ps'"
    by (auto split: sum.splits)
  have "map (\<lambda>p. p\<lparr>scheduledFor := None\<rparr>) ps' =
        map (\<lambda>p. p\<lparr>scheduledFor := None\<rparr>) (ps[i := (ps ! i)\<lparr>scheduledFor := Some s\<rparr>])"
    using Cons.IH [OF rest] .
  also have "\<dots> = map (\<lambda>p. p\<lparr>scheduledFor := None\<rparr>) ps"
    using upd_erase [of "\<lambda>p::item. p\<lparr>scheduledFor := None\<rparr>" ps i]
    by (simp add: map_update)
  finally show ?case .
qed

lemma schedulePosts_erase:
  "q' \<in> set (snd (schedulePosts rt c nows q)) \<Longrightarrow>
   map (\<lambda>p. p\<lparr>scheduledFor := None\<rparr>) (pending q') = map (\<lambda>p. p\<lparr>scheduledFor := None\<rparr>) (pending q)
   \<and> posted q' = posted q \<and> postedHashes q' = postedHashes q \<and> lastPostTime q' = lastPostTime q"
  by (auto simp: schedulePosts_def split: if_splits sum.splits dest: scheduleLoop_erase)

text \<open>
  Claim C1. For an input that passes validation, \<open>addToQueue\<close> returns the reason
  \<open>duplicate\<close> exactly when the hash of its text and media type is in \<open>postedHashes\<close> of
  the persisted queue. When it is not, the first write is the queue with the new item
  appended to \<open>pending\<close>, whatever \<open>pending\<close> holds, and the call returns the item (or
  ends with the exception of the scheduler, after that write).
\<close>

theorem addToQueue_duplicate_iff:
  assumes "valid (validateInput cnt)"
  shows "(fst (addToQueue rt c nowId nowAdded nows q cnt) = Duplicate
            \<longleftrightarrow> generateContentHash rt (content_text cnt) (content_mediaType cnt)
                  \<in> set (knownHashes q))
       \<and> (generateContentHash rt (content_text cnt) (content_mediaType cnt) \<notin> set (knownHashes q)
            \<longrightarrow> (\<exists>saves. snd (addToQueue rt c nowId nowAdded nows q cnt)
                     = q\<lparr>postedHashes := Some (knownHashes q),
                         pending := pending q @ [newItem rt nowId nowAdded cnt]\<rparr> # saves)
                \<and> (\<exists>e. fst (addToQueue rt c nowId nowAdded nows q cnt)
                     \<in> {Added (newItem rt nowId nowAdded cnt), Thrown e}))"
  using assms
  by (auto simp: addToQueue_def isDuplicateContent_def knownHashes_def Let_def split: prod.splits option.splits)

theorem addToQueue_duplicate_iff_witness:
  "valid (validateInput exampleContent)
   \<and> fst (addToQueue exampleRuntime exampleConfig 1000 1001 (\<lambda>k. 0)
           (emptyQueue\<lparr>postedHashes := Some [''hello:text'']\<rparr>) exampleContent) = Duplicate
   \<and> fst (addToQueue exampleRuntime exampleConfig 1000 1001 (\<lambda>k. 0)
           (emptyQueue\<lparr>pending := [newItem exampleRuntime 900 901 exampleContent]\<rparr>) exampleContent)
       \<noteq> Duplicate"
proof -
  have v: "valid (validateInput exampleContent)"
    by (simp add: validateInput_def exampleContent_def)
  have h: "generateContentHash exampleRuntime (content_text exampleContent)
             (content_mediaType exampleContent) = ''hello:text''"
    by (simp add: generateContentHash_def exampleRuntime_def exampleContent_def)
  show ?thesis
    using v
      addToQueue_duplicate_iff [OF v, of exampleRuntime exampleConfig 1000 1001 "\<lambda>k. 0"
        "emptyQueue\<lparr>postedHashes := Some [''hello:text'']\<rparr>"]
      addToQueue_duplicate_iff [OF v, of exampleRuntime exampleConfig 1000 1001 "\<lambda>k. 0"
        "emptyQueue\<lparr>pending := [newItem exampleRuntime 900 901 exampleContent]\<rparr>"]
    by (simp add: h knownHashes_def emptyQueue_def)
qed

text \<open>
  Claim C10. When \<open>addToQueue\<close> returns a validation failure or \<open>duplicate\<close> it writes
  nothing, so the persisted queue is the one it found; every queue it does write has one
  more pending item than the queue it found, the last one being the new item (with or
  without a slot).
\<close>

theorem addToQueue_rejection_writes_nothing:
  "(((\<exists>es. fst (addToQueue rt c nowId nowAdded nows q cnt) = Invalid es)
      \<or> fst (addToQueue rt c nowId nowAdded nows q cnt) = Duplicate)
     \<longrightarrow> snd (addToQueue rt c nowId nowAdded nows q cnt) = []
         \<and> storeAfter q (snd (addToQueue rt c nowId nowAdded nows q cnt)) = q)
   \<and> (\<forall>s \<in> set (snd (addToQueue rt c nowId nowAdded nows q cnt)).
         length (pending s) = Suc (length (pending q))
         \<and> (last (pending s))\<lparr>scheduledFor := None\<rparr> = newItem rt nowId nowAdded cnt)"
proof -
  let ?r = "addToQueue rt c nowId nowAdded nows q cnt"
  let ?it = "newItem rt nowId nowAdded cnt"
  let ?e = "\<lambda>p::item. p\<lparr>scheduledFor := None\<rparr>"
  have rej: "((\<exists>es. fst ?r = Invalid es) \<or> fst ?r = Duplicate) \<longrightarrow> snd ?r = []"
    by (auto simp: addToQueue_def Let_def split: prod.splits option.splits)
  have wr: "length (pending s) = Suc (length (pending q)) \<and> ?e (last (pending s)) = ?it"
    if "s \<in> set (snd ?r)" for s
  proof -
    let ?q2 = "q\<lparr>postedHashes := Some (knownHashes q), pending := pending q @ [?it]\<rparr>"
    from that have "s = ?q2 \<or> s \<in> set (snd (schedulePosts rt c nows ?q2))"
      by (auto simp: addToQueue_def isDuplicateContent_def knownHashes_def Let_def
               split: prod.splits option.splits if_splits)
    then have m: "map ?e (pending s) = map ?e (pending q @ [?it])"
      using schedulePosts_erase [of s rt c nows ?q2] by auto
    then have len: "length (pending s) = length (pending q @ [?it])"
      by (rule map_eq_imp_length_eq)
    then have ne: "pending s \<noteq> []" by auto
    have "?e (last (pending s)) = last (map ?e (pending s))"
      using ne by (simp add: last_map)
    also have "\<dots> = ?e ?it" by (simp add: m)
    also have "\<dots> = ?it" by (simp add: newItem_def)
    finally have "?e (last (pending s)) = ?it" .
    with len show ?thesis by simp
  qed
  show ?thesis using rej wr by (simp add: storeAfter_def)
qed

theorem addToQueue_rejection_writes_nothing_witness:
  "fst (addToQueue exampleRuntime exampleConfig 1000 1001 (\<lambda>k. 0)
           (emptyQueue\<lparr>postedHashes := Some [''hello:text'']\<rparr>) exampleContent) = Duplicate
   \<and> storeAfter (emptyQueue\<lparr>postedHashes := Some [''hello:text'']\<rparr>)
        (snd (addToQueue exampleRuntime exampleConfig 1000 1001 (\<lambda>k. 0)
           (emptyQueue\<lparr>postedHashes := Some [''hello:text'']\<rparr>) exampleContent))
       = emptyQueue\<lparr>postedHashes := Some [''hello:text'']\<rparr>"
proof -
  have d: "fst (addToQueue exampleRuntime exampleConfig 1000 1001 (\<lambda>k. 0)
           (emptyQueue\<lparr>postedHashes := Some [''hello:text'']\<rparr>) exampleContent) = Duplicate"
    by (simp add: addToQueue_def validateInput_def exampleContent_def isDuplicateContent_def
          generateContentHash_def exampleRuntime_def emptyQueue_def)
  show ?thesis
    using d addToQueue_rejection_writes_nothing [of exampleRuntime exampleConfig 1000 1001
        "\<lambda>k. 0" "emptyQueue\<lparr>postedHashes := Some [''hello:text'']\<rparr>" exampleContent]
    by (simp add: storeAfter_def)
qed

section \<open>The next slot\<close>

text \<open>
  Claim C3, where the code departs from it. The process runs in UTC and the configured
  zone is Tokyo, nine hours ahead, with the slots 09:00 and 18:00. At 01:00 UTC on
  1 January 2024 (the instant 1704070800000, day 19723) the clock in Tokyo shows 10:00, so
  the slot of the claim is 18:00 of that day in Tokyo, the instant 1704099600000
  (09:00 UTC). \<open>getNextScheduleTime\<close> reads the time of day in Tokyo, sets it on a \<open>Date\<close> of
  the zone the process runs in and returns 18:00 UTC, the instant 1704132000000, at which
  the clock in Tokyo shows 03:00 of the next day.
\<close>

theorem getNextScheduleTime_process_zone:
  "post_times tokyoConfig = [''09:00'', ''18:00''] \<and> zoneOf tokyoConfig = ''Asia/Tokyo''
   \<and> localTime exampleRuntime 1704070800000 = 1704070800000
   \<and> wallClock exampleRuntime (zoneOf tokyoConfig) 1704070800000
       = Some (19723 * msPerDay + 10 * 3600000)
   \<and> getNextScheduleTime exampleRuntime tokyoConfig 1704070800000
       = Inr (isoUtc exampleRuntime 1704132000000)
   \<and> wallClock exampleRuntime (zoneOf tokyoConfig) 1704132000000
       = Some (19724 * msPerDay + 3 * 3600000)
   \<and> wallClock exampleRuntime (zoneOf tokyoConfig) 1704099600000
       = Some (19723 * msPerDay + 18 * 3600000)
   \<and> isoUtc exampleRuntime 1704132000000 \<noteq> isoUtc exampleRuntime 1704099600000"
  by (simp add: sched_defs example_slots exampleRuntime_def exampleConfig_def tokyoConfig_def
        toString_def dec.simps digit_def)

section \<open>One run of the scheduler\<close>

lemma scheduleLoop_slots:
  assumes "distinct is"
    and "\<forall>j < length is. getNextScheduleTime rt c (nows (k + j)) = Inr (slots (k + j))"
  shows "\<exists>ps'. scheduleLoop rt c nows is k ps = Inr ps' \<and> length ps' = length ps
           \<and> (\<forall>j < length is. is ! j < length ps \<longrightarrow>
                 ps' ! (is ! j) = (ps ! (is ! j))\<lparr>scheduledFor := Some (slots (k + j))\<rparr>)
           \<and> (\<forall>i < length ps. i \<notin> set is \<longrightarrow> ps' ! i = ps ! i)"
  using assms
proof (induction "is" arbitrary: k ps)
  case Nil
  then show ?case by simp
next
  case (Cons i0 rest)
  let ?ps1 = "ps[i0 := (ps ! i0)\<lparr>scheduledFor := Some (slots k)\<rparr>]"
  from Cons.prems(1) have d: "distinct rest" and n: "i0 \<notin> set rest" by simp_all
  from Cons.prems(2) have g0: "getNextScheduleTime rt c (nows k) = Inr (slots k)" by force
  have gr: "\<forall>j < length rest. getNextScheduleTime rt c (nows (Suc k + j)) = Inr (slots (Suc k + j))"
  proof (intro allI impI)
    fix j assume "j < length rest"
    then have "Suc j < length (i0 # rest)" by simp
    with Cons.prems(2) have "getNextScheduleTime rt c (nows (k + Suc j)) = Inr (slots (k + Suc j))"
      by blast
    then show "getNextScheduleTime rt c (nows (Suc k + j)) = Inr (slots (Suc k + j))" by simp
  qed
  from Cons.IH [OF d gr, of ?ps1] obtain ps' where
    run: "scheduleLoop rt c nows rest (Suc k) ?ps1 = Inr ps'"
    and len: "length ps' = length ps"
    and hit: "\<forall>j < length rest. rest ! j < length ps \<longrightarrow>
                 ps' ! (rest ! j) = (?ps1 ! (rest ! j))\<lparr>scheduledFor := Some (slots (Suc k + j))\<rparr>"
    and miss: "\<forall>i < length ps. i \<notin> set rest \<longrightarrow> ps' ! i = ?ps1 ! i"
    by auto
  have r: "scheduleLoop rt c nows (i0 # rest) k ps = Inr ps'" using g0 run by simp
  have h: "ps' ! ((i0 # rest) ! j) = (ps ! ((i0 # rest) ! j))\<lparr>scheduledFor := Some (slots (k + j))\<rparr>"
    if j: "j < length (i0 # rest)" and b: "(i0 # rest) ! j < length ps" for j
  proof (cases j)
    case 0
    with b have "i0 < length ps" by simp
    with miss n have "ps' ! i0 = ?ps1 ! i0" by blast
    with \<open>i0 < length ps\<close> 0 show ?thesis by simp
  next
    case (Suc j')
    with j have j': "j' < length rest" by simp
    from Suc b have b': "rest ! j' < length ps" by simp
    from j' n have ne: "rest ! j' \<noteq> i0" by (metis nth_mem)
    from hit j' b' have "ps' ! (rest ! j')
        = (?ps1 ! (rest ! j'))\<lparr>scheduledFor := Some (slots (Suc k + j'))\<rparr>" by blast
    with ne Suc show ?thesis by simp
  qed
  have m: "ps' ! i = ps ! i" if "i < length ps" "i \<notin> set (i0 # rest)" for i
  proof -
    from that have "i \<notin> set rest" "i \<noteq> i0" by simp_all
    with miss that(1) show ?thesis by simp
  qed
  from r len h m show ?case by blast
qed


lemma unscheduled_props:
  "sorted (unscheduled ps)" "distinct (unscheduled ps)"
  "set (unscheduled ps) = {i. i < length ps \<and> \<not> truthyStr (scheduledFor (ps ! i))}"
  by (auto simp: unscheduled_def sorted_wrt_filter)

lemma toSchedule_count:
  assumes "\<forall>n. posts_per_day c = Some n \<longrightarrow> 0 \<le> n"
  shows "toSchedule c ps
         = take (case posts_per_day c of None \<Rightarrow> 2 | Some n \<Rightarrow> if n = 0 then 2 else nat n)
                (unscheduled ps)"
  using assms by (auto simp: toSchedule_def slice0_def postsPerDay_def split: option.splits)

text \<open>
  Claim C9, amended. One run of \<open>schedulePosts\<close> takes the pending items without a slot in
  the order of \<open>pending\<close> and keeps the first \<open>posts_per_day\<close> of them, 2 when the setting is
  missing or 0 (the count is a natural number). Each call of \<open>getNextScheduleTime\<close> reads
  the clock: the \<open>k\<close>-th item kept gets the slot computed at the \<open>k\<close>-th reading, and every
  other pending item is as it was. When the readings of the run agree, every item kept
  gets the one slot of that reading.
\<close>

theorem schedulePosts_slot_per_reading:
  assumes "\<forall>n. posts_per_day c = Some n \<longrightarrow> 0 \<le> n"
    and "\<forall>k < length (toSchedule c (pending q)).
           getNextScheduleTime rt c (nows k) = Inr (slots k)"
  shows "toSchedule c (pending q)
           = take (case posts_per_day c of None \<Rightarrow> 2 | Some n \<Rightarrow> if n = 0 then 2 else nat n)
                  (unscheduled (pending q))
       \<and> sorted (unscheduled (pending q))
       \<and> set (unscheduled (pending q))
           = {i. i < length (pending q) \<and> \<not> truthyStr (scheduledFor (pending q ! i))}
       \<and> (unscheduled (pending q) = [] \<longrightarrow> schedulePosts rt c nows q = (None, []))
       \<and> (unscheduled (pending q) \<noteq> [] \<longrightarrow>
            (\<exists>ps'. schedulePosts rt c nows q = (None, [q\<lparr>pending := ps'\<rparr>])
                  \<and> length ps' = length (pending q)
                  \<and> (\<forall>k < length (toSchedule c (pending q)).
                        ps' ! (toSchedule c (pending q) ! k)
                        = (pending q ! (toSchedule c (pending q) ! k))
                            \<lparr>scheduledFor := Some (slots k)\<rparr>)
                  \<and> (\<forall>i < length (pending q).
                        i \<notin> set (toSchedule c (pending q)) \<longrightarrow> ps' ! i = pending q ! i)
                  \<and> ((\<forall>k < length (toSchedule c (pending q)). nows k = nows 0) \<longrightarrow>
                       (\<forall>k < length (toSchedule c (pending q)).
                          ps' ! (toSchedule c (pending q) ! k)
                          = (pending q ! (toSchedule c (pending q) ! k))
                              \<lparr>scheduledFor := Some (slots 0)\<rparr>))))"
proof -
  let ?ps = "pending q"
  let ?sel = "toSchedule c ?ps"
  have tk: "?sel = take (case posts_per_day c of None \<Rightarrow> 2
                         | Some n \<Rightarrow> if n = 0 then 2 else nat n) (unscheduled ?ps)"
    using assms(1) by (rule toSchedule_count)
  then have d: "distinct ?sel" using unscheduled_props(2) [of ?ps] by simp
  have sub: "set ?sel \<subseteq> set (unscheduled ?ps)" unfolding tk by (rule set_take_subset)
  have inr: "\<forall>k < length ?sel. ?sel ! k < length ?ps"
    using sub unscheduled_props(3) [of ?ps] by (auto dest: nth_mem)
  from scheduleLoop_slots [OF d, of rt c nows 0 slots ?ps] assms(2) obtain ps' where
    loop: "scheduleLoop rt c nows ?sel 0 ?ps = Inr ps'" and len: "length ps' = length ?ps"
    and hit: "\<forall>j < length ?sel. ?sel ! j < length ?ps \<longrightarrow>
                ps' ! (?sel ! j) = (?ps ! (?sel ! j))\<lparr>scheduledFor := Some (slots j)\<rparr>"
    and miss: "\<forall>i < length ?ps. i \<notin> set ?sel \<longrightarrow> ps' ! i = ?ps ! i"
    by auto
  from hit inr have hit': "\<forall>k < length ?sel.
      ps' ! (?sel ! k) = (?ps ! (?sel ! k))\<lparr>scheduledFor := Some (slots k)\<rparr>" by blast
  have same: "\<forall>k < length ?sel. ps' ! (?sel ! k) = (?ps ! (?sel ! k))\<lparr>scheduledFor := Some (slots 0)\<rparr>"
    if eq: "\<forall>k < length ?sel. nows k = nows 0"
  proof (intro allI impI)
    fix k assume k: "k < length ?sel"
    then have z: "0 < length ?sel" by arith
    from assms(2) k have "getNextScheduleTime rt c (nows k) = Inr (slots k)" by blast
    moreover from assms(2) z have "getNextScheduleTime rt c (nows 0) = Inr (slots 0)" by blast
    moreover from eq k have "nows k = nows 0" by blast
    ultimately have "slots k = slots 0" by simp
    with hit' k show "ps' ! (?sel ! k) = (?ps ! (?sel ! k))\<lparr>scheduledFor := Some (slots 0)\<rparr>"
      by simp
  qed
  have run: "unscheduled ?ps \<noteq> [] \<Longrightarrow> schedulePosts rt c nows q = (None, [q\<lparr>pending := ps'\<rparr>])"
    using loop by (simp add: schedulePosts_def)
  have none: "unscheduled ?ps = [] \<Longrightarrow> schedulePosts rt c nows q = (None, [])"
    by (simp add: schedulePosts_def)
  from tk unscheduled_props(1,3) [of ?ps] none run len hit' miss same
  show ?thesis by blast
qed

lemma exampleQueue_unscheduled: "unscheduled (pending exampleQueue) = [0, 2, 3]"
  by (simp add: unscheduled_def exampleQueue_def itemWithHash_def truthyStr_def upt_rec)

theorem schedulePosts_slot_per_reading_witness:
  "posts_per_day exampleConfig = None
   \<and> getNextScheduleTime exampleRuntime exampleConfig (exampleClock 0) = Inr (toString 64800000)
   \<and> getNextScheduleTime exampleRuntime exampleConfig (exampleClock 1) = Inr (toString 64800000)
   \<and> toSchedule exampleConfig (pending exampleQueue) = [0, 2]
   \<and> toSchedule (exampleConfig\<lparr>posts_per_day := Some 3\<rparr>) (pending exampleQueue) = [0, 2, 3]
   \<and> (\<exists>ps'. schedulePosts exampleRuntime exampleConfig exampleClock exampleQueue
               = (None, [exampleQueue\<lparr>pending := ps'\<rparr>])
            \<and> ps' ! 0 = (itemWithHash ''a'')\<lparr>scheduledFor := Some (toString 64800000)\<rparr>
            \<and> ps' ! 1 = (itemWithHash ''b'')\<lparr>scheduledFor := Some ''1970''\<rparr>
            \<and> ps' ! 2 = (itemWithHash ''c'')\<lparr>scheduledFor := Some (toString 64800000)\<rparr>
            \<and> ps' ! 3 = itemWithHash ''d'')"
proof -
  let ?c3 = "exampleConfig\<lparr>posts_per_day := Some 3\<rparr>"
  have a: "\<forall>n. posts_per_day exampleConfig = Some n \<longrightarrow> 0 \<le> n"
    by (simp add: example_fields)
  have a3: "\<forall>n. posts_per_day ?c3 = Some n \<longrightarrow> 0 \<le> n" by simp
  have g: "getNextScheduleTime exampleRuntime exampleConfig (exampleClock k)
           = Inr (toString 64800000)" for k
    by (simp add: exampleClock_def example_slot_afternoon)
  have b: "\<forall>k < length (toSchedule exampleConfig (pending exampleQueue)).
             getNextScheduleTime exampleRuntime exampleConfig (exampleClock k)
             = Inr ((\<lambda>k. toString 64800000) k)"
    by (simp add: g)
  have s: "toSchedule exampleConfig (pending exampleQueue) = [0, 2]"
    using schedulePosts_slot_per_reading [OF a b]
    by (simp add: example_fields exampleQueue_unscheduled)
  have b3: "\<forall>k < length (toSchedule ?c3 (pending exampleQueue)).
             getNextScheduleTime exampleRuntime ?c3 (exampleClock k)
             = Inr ((\<lambda>k. toString 64800000) k)"
    by (simp add: exampleClock_def sched_defs example_slots exampleRuntime_def exampleConfig_def)
  have s3: "toSchedule ?c3 (pending exampleQueue) = [0, 2, 3]"
    using schedulePosts_slot_per_reading [OF a3 b3]
    by (simp add: exampleQueue_unscheduled)
  have l: "length (pending exampleQueue) = 4" by (simp add: exampleQueue_def)
  have p: "pending exampleQueue ! 0 = itemWithHash ''a''"
    "pending exampleQueue ! 1 = (itemWithHash ''b'')\<lparr>scheduledFor := Some ''1970''\<rparr>"
    "pending exampleQueue ! 2 = itemWithHash ''c''"
    "pending exampleQueue ! 3 = itemWithHash ''d''"
    by (simp_all add: exampleQueue_def)
  have ne: "unscheduled (pending exampleQueue) \<noteq> []"
    by (simp add: exampleQueue_unscheduled)
  from schedulePosts_slot_per_reading [OF a b] ne
  obtain ps' where r: "schedulePosts exampleRuntime exampleConfig exampleClock exampleQueue
               = (None, [exampleQueue\<lparr>pending := ps'\<rparr>])"
    and h: "\<forall>k < length (toSchedule exampleConfig (pending exampleQueue)).
              ps' ! (toSchedule exampleConfig (pending exampleQueue) ! k)
              = (pending exampleQueue ! (toSchedule exampleConfig (pending exampleQueue) ! k))
                  \<lparr>scheduledFor := Some (toString 64800000)\<rparr>"
    and m: "\<forall>i < length (pending exampleQueue).
              i \<notin> set (toSchedule exampleConfig (pending exampleQueue)) \<longrightarrow>
              ps' ! i = pending exampleQueue ! i"
    by blast
  have h': "\<forall>k < 2. ps' ! ([0, 2] ! k)
              = (pending exampleQueue ! ([0, 2] ! k))\<lparr>scheduledFor := Some (toString 64800000)\<rparr>"
    using h unfolding s by simp
  have "ps' ! ([0, 2] ! 0) = (pending exampleQueue ! ([0, 2] ! 0))
                  \<lparr>scheduledFor := Some (toString 64800000)\<rparr>"
    "ps' ! ([0, 2] ! 1) = (pending exampleQueue ! ([0, 2] ! 1))
                  \<lparr>scheduledFor := Some (toString 64800000)\<rparr>"
    using h' by (metis zero_less_numeral, metis one_less_numeral_iff semiring_norm(76))
  then have h02: "ps' ! 0 = (pending exampleQueue ! 0)\<lparr>scheduledFor := Some (toString 64800000)\<rparr>"
    "ps' ! 2 = (pending exampleQueue ! 2)\<lparr>scheduledFor := Some (toString 64800000)\<rparr>"
    by simp_all
  note h02
  moreover from m have "ps' ! 1 = pending exampleQueue ! 1" "ps' ! 3 = pending exampleQueue ! 3"
    unfolding s l by simp_all
  ultimately have "ps' ! 0 = (itemWithHash ''a'')\<lparr>scheduledFor := Some (toString 64800000)\<rparr>"
    "ps' ! 1 = (itemWithHash ''b'')\<lparr>scheduledFor := Some ''1970''\<rparr>"
    "ps' ! 2 = (itemWithHash ''c'')\<lparr>scheduledFor := Some (toString 64800000)\<rparr>"
    "ps' ! 3 = itemWithHash ''d''"
    using p by simp_all
  with example_fields(5) g [of 0] g [of 1] s s3 r show ?thesis by blast
qed

text \<open>
  Claim C9 as stated fails when a slot passes between two readings of one run: with the
  first reading at 08:59:59 and the second at 09:00:00, the first item kept gets 09:00 of
  the day and the second gets 18:00.
\<close>

theorem schedulePosts_crossing_counterexample:
  "schedulePosts exampleRuntime exampleConfig crossingClock exampleQueue
     = (None,
        [exampleQueue\<lparr>pending :=
           [(itemWithHash ''a'')\<lparr>scheduledFor := Some (toString 32400000)\<rparr>,
            (itemWithHash ''b'')\<lparr>scheduledFor := Some ''1970''\<rparr>,
            (itemWithHash ''c'')\<lparr>scheduledFor := Some (toString 64800000)\<rparr>,
            itemWithHash ''d'']\<rparr>])
   \<and> toString 32400000 \<noteq> toString 64800000"
proof -
  have s: "toSchedule exampleConfig (pending exampleQueue) = [0, 2]"
    by (simp add: toSchedule_def slice0_def postsPerDay_def example_fields
          exampleQueue_unscheduled)
  have n: "toString 32400000 \<noteq> toString 64800000"
    by (simp add: toString_def dec.simps digit_def)
  have "schedulePosts exampleRuntime exampleConfig crossingClock exampleQueue
     = (None,
        [exampleQueue\<lparr>pending :=
           [(itemWithHash ''a'')\<lparr>scheduledFor := Some (toString 32400000)\<rparr>,
            (itemWithHash ''b'')\<lparr>scheduledFor := Some ''1970''\<rparr>,
            (itemWithHash ''c'')\<lparr>scheduledFor := Some (toString 64800000)\<rparr>,
            itemWithHash ''d'']\<rparr>])"
    by (simp add: schedulePosts_def exampleQueue_unscheduled s crossingClock_def
          example_slot_before_nine example_slot_at_nine)
       (simp add: exampleQueue_def)
  with n show ?thesis by simp
qed

section \<open>The rate-limit gate\<close>

lemma deliver_clock:
  "deliver rt c it env w = (res, calls, w') \<Longrightarrow>
   rl_lastPostTime w' = (case res of Inl m \<Rightarrow> rl_lastPostTime w | Inr r \<Rightarrow> now_done env)"
  by (auto simp: deliver_def updateRateLimit_def
           split: if_splits prod.splits sum.splits option.splits)

lemma deliver_real: "deliver rt c it env w = (Inr r, calls, w') \<Longrightarrow> \<not> dryRun r"
  by (auto simp: deliver_def split: if_splits prod.splits sum.splits option.splits)

lemma postToFacebook_clock:
  "postToFacebook rt c it env w = (res, calls, w') \<Longrightarrow>
   rl_lastPostTime w' =
     (case res of Inl m \<Rightarrow> rl_lastPostTime w
      | Inr r \<Rightarrow> if dryRun r then rl_lastPostTime w else now_done env)"
proof (cases "\<not> dry_run c \<and> valid (validateConfig c) \<and> allowed (checkRateLimit w (now_gate env))")
  case True
  assume p: "postToFacebook rt c it env w = (res, calls, w')"
  with True have d: "deliver rt c it env w = (res, calls, w')"
    by (simp add: postToFacebook_def Let_def)
  show ?thesis
    using deliver_clock [OF d] deliver_real [of rt c it env w _ calls w'] d
    by (cases res) auto
next
  case False
  assume "postToFacebook rt c it env w = (res, calls, w')"
  with False show ?thesis
    by (auto simp: postToFacebook_def Let_def split: if_splits)
qed

text \<open>
  Claim C4, amended. With dry-run off, after an attempt that succeeded under a
  configuration the clock of the rate limiter is the instant \<open>updateRateLimit\<close> read; a
  second attempt under that configuration whose gate reads the clock less than 60000 ms
  later ends with the rate-limit message, no network call made and the state unchanged;
  one whose gate reads it 60000 ms later or more passes the gate and runs the \<open>try\<close> block.
  Under any configuration an attempt that ends with an exception leaves the clock of the
  rate limiter as it was.
\<close>

theorem rate_limit_gate:
  assumes "\<not> dry_run c"
    and "postToFacebook rt c it1 env1 w0 = (Inr r1, calls1, w1)"
  shows "rl_lastPostTime w1 = now_done env1
       \<and> (now_gate env2 - now_done env1 < 60000 \<longrightarrow>
            \<not> allowed (checkRateLimit w1 (now_gate env2))
            \<and> prefix ''Rate limit exceeded'' (message (checkRateLimit w1 (now_gate env2)))
            \<and> postToFacebook rt c it2 env2 w1
                = (Inl (message (checkRateLimit w1 (now_gate env2))), [], w1))
       \<and> (60000 \<le> now_gate env2 - now_done env1 \<longrightarrow>
            allowed (checkRateLimit w1 (now_gate env2))
            \<and> postToFacebook rt c it2 env2 w1 = deliver rt c it2 env2 w1)
       \<and> (\<forall>msg. fst (postToFacebook rt c' it env w) = Inl msg \<longrightarrow>
            rl_lastPostTime (snd (snd (postToFacebook rt c' it env w))) = rl_lastPostTime w)"
proof -
  from assms have v: "valid (validateConfig c)"
    by (auto simp: postToFacebook_def Let_def split: if_splits)
  from assms have d: "deliver rt c it1 env1 w0 = (Inr r1, calls1, w1)"
    by (auto simp: postToFacebook_def Let_def split: if_splits)
  have clk: "rl_lastPostTime w1 = now_done env1"
    using deliver_clock [OF d] by simp
  have lt: "now_gate env2 - now_done env1 < 60000 \<Longrightarrow>
            \<not> allowed (checkRateLimit w1 (now_gate env2))
            \<and> prefix ''Rate limit exceeded'' (message (checkRateLimit w1 (now_gate env2)))"
    using clk by (simp add: checkRateLimit_def minInterval_def Let_def)
  have ge: "60000 \<le> now_gate env2 - now_done env1 \<Longrightarrow> allowed (checkRateLimit w1 (now_gate env2))"
    using clk by (simp add: checkRateLimit_def minInterval_def Let_def)
  have fail: "rl_lastPostTime (snd (snd (postToFacebook rt c' it env w))) = rl_lastPostTime w"
    if "fst (postToFacebook rt c' it env w) = Inl msg" for msg
    using that postToFacebook_clock [of rt c' it env w "Inl msg"
        "fst (snd (postToFacebook rt c' it env w))" "snd (snd (postToFacebook rt c' it env w))"]
    by (metis old.sum.simps(5) prod.collapse)
  show ?thesis
    using clk lt ge fail assms(1) v by (auto simp: postToFacebook_def Let_def)
qed

theorem rate_limit_gate_witness:
  "\<not> dry_run exampleConfig
   \<and> postToFacebook exampleRuntime exampleConfig (itemWithHash ''a'') (exampleEnv 100000) exampleWorld
       = (Inr \<lparr>res_id = Some ''page_post'', dryRun = False\<rparr>, [FbFeed],
          exampleWorld\<lparr>rl_lastPostTime := 100000\<rparr>)
   \<and> fst (postToFacebook exampleRuntime exampleConfig (itemWithHash ''b'') (exampleEnv 159999)
            (exampleWorld\<lparr>rl_lastPostTime := 100000\<rparr>))
       = Inl (message (checkRateLimit (exampleWorld\<lparr>rl_lastPostTime := 100000\<rparr>) 159999))
   \<and> postToFacebook exampleRuntime exampleConfig (itemWithHash ''b'') (exampleEnv 160000)
            (exampleWorld\<lparr>rl_lastPostTime := 100000\<rparr>)
       = deliver exampleRuntime exampleConfig (itemWithHash ''b'') (exampleEnv 160000)
            (exampleWorld\<lparr>rl_lastPostTime := 100000\<rparr>)"
proof -
  have a: "\<not> dry_run exampleConfig" by (simp add: exampleConfig_def)
  have b: "postToFacebook exampleRuntime exampleConfig (itemWithHash ''a'') (exampleEnv 100000) exampleWorld
       = (Inr \<lparr>res_id = Some ''page_post'', dryRun = False\<rparr>, [FbFeed],
          exampleWorld\<lparr>rl_lastPostTime := 100000\<rparr>)"
    by (simp add: postToFacebook_def exampleConfig_def validateConfig_def missingOrPlaceholder_def
          truthyStr_def checkRateLimit_def minInterval_def exampleWorld_def exampleEnv_def
          deliver_def itemWithHash_def publish_def fbCall_def updateRateLimit_def)
  have g: "now_gate (exampleEnv t) = t" "now_done (exampleEnv t) = t" for t
    by (simp_all add: exampleEnv_def)
  show ?thesis
    using a b
      rate_limit_gate [OF a b, of "exampleEnv 159999" "itemWithHash ''b''"]
      rate_limit_gate [OF a b, of "exampleEnv 160000" "itemWithHash ''b''"]
    by (simp add: g)
qed

text \<open>
  Claim C4 as stated fails in dry-run mode, where the gate is never reached: an attempt
  succeeds, and an attempt one second later succeeds too.
\<close>

theorem rate_limit_dry_run_counterexample:
  "postToFacebook exampleRuntime (exampleConfig\<lparr>dry_run := True\<rparr>) (itemWithHash ''a'')
      (exampleEnv 100000) exampleWorld
     = (Inr \<lparr>res_id = Some (''dry-run-'' @ toString 100000), dryRun = True\<rparr>, [], exampleWorld)
   \<and> now_gate (exampleEnv 101000) - 100000 < 60000
   \<and> postToFacebook exampleRuntime (exampleConfig\<lparr>dry_run := True\<rparr>) (itemWithHash ''b'')
      (exampleEnv 101000) exampleWorld
     = (Inr \<lparr>res_id = Some (''dry-run-'' @ toString 101000), dryRun = True\<rparr>, [], exampleWorld)"
  by (simp add: postToFacebook_def exampleConfig_def exampleEnv_def)

section \<open>Cleaning up the downloaded file\<close>

lemma str_includes_prefix: "prefix ys xs \<Longrightarrow> str_includes xs ys"
  by (cases xs) auto

lemma download_path:
  assumes "downloadTelegramFile rt env fs = (Inr p, calls, fs1)"
  shows "liesUnder (TEMP_DIR rt) p \<and> p \<in> fs1 \<and> p \<noteq> [] \<and> str_includes p (TEMP_DIR rt)
         \<and> fs1 = insert p fs"
proof -
  from assms obtain fp where
    p: "p = TEMP_DIR rt @ ''/'' @ toString (now_file env) @ ''_'' @ basename fp"
    and f: "fs1 = insert p fs"
    by (auto simp: downloadTelegramFile_def Let_def
             split: response.splits option.splits if_splits)
  have "prefix (TEMP_DIR rt) p" by (simp add: p)
  then have "str_includes p (TEMP_DIR rt)" by (rule str_includes_prefix)
  moreover have "liesUnder (TEMP_DIR rt) p" by (simp add: p liesUnder_def)
  moreover have "p \<noteq> []" by (simp add: p)
  ultimately show ?thesis using f by simp
qed

lemma download_failed:
  "downloadTelegramFile rt env fs = (Inl m, calls, fs1) \<Longrightarrow> fs1 = fs"
  by (auto simp: downloadTelegramFile_def Let_def
           split: response.splits option.splits if_splits)

lemma deliver_removes_download:
  assumes "truthyStr (telegramFileId it)" "truthyStr (bot_token c)"
    and "downloadTelegramFile rt env (files w) = (Inr p, calls1, fs1)"
  shows "liesUnder (TEMP_DIR rt) p \<and> p \<in> fs1
         \<and> files (snd (snd (deliver rt c it env w))) = files w - {p}"
  using assms download_path [OF assms(3)]
  by (auto simp: deliver_def cleanupTempFile_def updateRateLimit_def
           split: prod.splits sum.splits option.splits)

lemma deliver_files:
  "files (snd (snd (deliver rt c it env w))) = files w
   \<or> (\<exists>p. liesUnder (TEMP_DIR rt) p \<and> files (snd (snd (deliver rt c it env w))) = files w - {p})"
proof (cases "truthyStr (telegramFileId it) \<and> truthyStr (bot_token c)")
  case False
  then show ?thesis
    by (auto simp: deliver_def updateRateLimit_def split: prod.splits sum.splits option.splits)
next
  case True
  obtain r calls1 fs1 where d: "downloadTelegramFile rt env (files w) = (r, calls1, fs1)"
    by (cases "downloadTelegramFile rt env (files w)")
  show ?thesis
  proof (cases r)
    case (Inl m)
    with d download_failed [of rt env "files w" m calls1 fs1] True show ?thesis
      by (simp add: deliver_def)
  next
    case (Inr p)
    with d deliver_removes_download [of it c rt env w p calls1 fs1] True show ?thesis
      by blast
  qed
qed

lemma postToFacebook_files:
  "files (snd (snd (postToFacebook rt c it env w))) = files w
   \<or> (\<exists>p. liesUnder (TEMP_DIR rt) p
          \<and> files (snd (snd (postToFacebook rt c it env w))) = files w - {p})"
  using deliver_files [of rt c it env w]
  by (simp add: postToFacebook_def Let_def)

lemma postToFacebook_deleted:
  "f \<in> files w \<Longrightarrow> f \<notin> files (snd (snd (postToFacebook rt c it env w)))
   \<Longrightarrow> liesUnder (TEMP_DIR rt) f"
  using postToFacebook_files [of rt c it env w] by auto

lemma processItem_world:
  "ps_world (processItem rt c nowIso env (t, it) st)
   = snd (snd (postToFacebook rt c it env (ps_world st)))"
  by (auto simp: processItem_def split: prod.splits sum.splits)

lemma processLoop_deleted:
  "f \<in> files (ps_world st) \<Longrightarrow> f \<notin> files (ps_world (processLoop rt c nowIso envs due k st))
   \<Longrightarrow> liesUnder (TEMP_DIR rt) f"
proof (induction due arbitrary: k st)
  case Nil
  then show ?case by simp
next
  case (Cons ti due)
  obtain t it where ti: "ti = (t, it)" by (cases ti)
  let ?st1 = "processItem rt c nowIso (envs k) (t, it) st"
  show ?case
  proof (cases "f \<in> files (ps_world ?st1)")
    case True
    from Cons.IH [OF True] Cons.prems(2) show ?thesis by (simp add: ti)
  next
    case False
    with Cons.prems(1) postToFacebook_deleted [of f "ps_world st" rt c it "envs k"]
    show ?thesis by (simp add: processItem_world)
  qed
qed

text \<open>
  The guard of \<open>cleanupTempFile\<close> asks whether the path contains the path of the scratch
  directory: the function removes at most the path it is given, and only a path that
  contains \<open>TEMP_DIR\<close>. Its one call, in the \<open>finally\<close> clause, passes the path that
  \<open>downloadTelegramFile\<close> built, which begins with \<open>TEMP_DIR\<close> and a slash.
\<close>

lemma cleanupTempFile_guard:
  "f \<in> fs \<Longrightarrow> f \<notin> cleanupTempFile rt fp fs \<Longrightarrow> f = fp \<and> str_includes fp (TEMP_DIR rt)"
  by (auto simp: cleanupTempFile_def split: if_splits)

text \<open>
  Claim C8. An attempt that passes the gates and downloads a Telegram file writes it
  under the scratch directory, and when \<open>postToFacebook\<close> is over the file does not exist,
  however the attempt ended: the files are those from before the attempt, less that path.
  Every file that exists before an attempt, or before a pass of the processor, and not
  after it lies under the scratch directory.
\<close>

theorem downloaded_file_removed:
  "(\<not> dry_run c \<and> valid (validateConfig c) \<and> allowed (checkRateLimit w (now_gate env))
      \<and> truthyStr (telegramFileId it) \<and> truthyStr (bot_token c)
      \<and> downloadTelegramFile rt env (files w) = (Inr p, calls1, fs1)
     \<longrightarrow> liesUnder (TEMP_DIR rt) p \<and> p \<in> fs1
         \<and> files (snd (snd (postToFacebook rt c it env w))) = files w - {p})
   \<and> (\<forall>f. f \<in> files w \<and> f \<notin> files (snd (snd (postToFacebook rt c it env w)))
          \<longrightarrow> liesUnder (TEMP_DIR rt) f)
   \<and> (\<forall>f. f \<in> files w \<and> f \<notin> files (ps_world (snd (processScheduledPosts rt c now envs w q)))
          \<longrightarrow> liesUnder (TEMP_DIR rt) f)"
proof -
  have a: "\<not> dry_run c \<and> valid (validateConfig c) \<and> allowed (checkRateLimit w (now_gate env))
      \<and> truthyStr (telegramFileId it) \<and> truthyStr (bot_token c)
      \<and> downloadTelegramFile rt env (files w) = (Inr p, calls1, fs1)
     \<longrightarrow> liesUnder (TEMP_DIR rt) p \<and> p \<in> fs1
         \<and> files (snd (snd (postToFacebook rt c it env w))) = files w - {p}"
    using deliver_removes_download [of it c rt env w p calls1 fs1]
    by (simp add: postToFacebook_def Let_def)
  have b: "\<forall>f. f \<in> files w \<and> f \<notin> files (snd (snd (postToFacebook rt c it env w)))
          \<longrightarrow> liesUnder (TEMP_DIR rt) f"
    using postToFacebook_deleted [of _ w rt c it env] by blast
  have c: "\<forall>f. f \<in> files w \<and> f \<notin> files (ps_world (snd (processScheduledPosts rt c now envs w q)))
          \<longrightarrow> liesUnder (TEMP_DIR rt) f"
    using processLoop_deleted [of _ "startState w q" rt c "isoUtc rt now" envs
        "duePosts (isoUtc rt now) (pending q)" 0]
    by (auto simp: processScheduledPosts_def Let_def startState_def)
  from a b c show ?thesis by blast
qed

theorem downloaded_file_removed_witness:
  "\<not> dry_run exampleConfig \<and> valid (validateConfig exampleConfig)
   \<and> allowed (checkRateLimit staleWorld (now_gate (exampleEnv 100000)))
   \<and> truthyStr (telegramFileId telegramItem) \<and> truthyStr (bot_token exampleConfig)
   \<and> downloadTelegramFile exampleRuntime (exampleEnv 100000) (files staleWorld)
       = (Inr downloadedPath, [TgGetFile, TgDownload], files staleWorld)
   \<and> downloadedPath \<in> files staleWorld
   \<and> files (snd (snd (postToFacebook exampleRuntime exampleConfig telegramItem
                         (exampleEnv 100000) staleWorld))) = {''/app/config.json''}
   \<and> files (ps_world (snd (processScheduledPosts exampleRuntime exampleConfig 100000 exampleEnvs
                             staleWorld telegramQueue))) = {''/app/config.json''}
   \<and> liesUnder (TEMP_DIR exampleRuntime) downloadedPath"
proof -
  have d: "downloadTelegramFile exampleRuntime (exampleEnv 100000) (files staleWorld)
           = (Inr downloadedPath, [TgGetFile, TgDownload], files staleWorld)"
    by (simp add: downloadTelegramFile_def exampleEnv_def exampleRuntime_def basename_def
          http_ok_def toString_def dec.simps digit_def downloadedPath_def staleWorld_def
          exampleWorld_def insert_absorb Let_def)
  have h: "\<not> dry_run exampleConfig" "valid (validateConfig exampleConfig)"
    "allowed (checkRateLimit staleWorld (now_gate (exampleEnv 100000)))"
    "truthyStr (telegramFileId telegramItem)" "truthyStr (bot_token exampleConfig)"
    by (simp_all add: exampleConfig_def validateConfig_def missingOrPlaceholder_def
          truthyStr_def checkRateLimit_def minInterval_def staleWorld_def exampleWorld_def
          exampleEnv_def telegramItem_def Let_def)
  have m: "downloadedPath \<in> files staleWorld"
    "files staleWorld - {downloadedPath} = {''/app/config.json''}"
    by (auto simp: staleWorld_def downloadedPath_def)
  have e: "exampleEnvs 0 = exampleEnv 100000" by (simp add: exampleEnvs_def)
  have due: "duePosts nowIso (pending telegramQueue) = [(0, telegramItem)]" for nowIso
    by (simp add: duePosts_def tagged_def telegramQueue_def telegramItem_def nowItem_def
          isDue_def)
  have p: "ps_world (snd (processScheduledPosts exampleRuntime exampleConfig 100000 exampleEnvs
                             staleWorld telegramQueue))
           = snd (snd (postToFacebook exampleRuntime exampleConfig telegramItem
                         (exampleEnv 100000) staleWorld))"
    by (simp add: processScheduledPosts_def Let_def due e processItem_world startState_def)
  from downloaded_file_removed [where rt = exampleRuntime and c = exampleConfig
      and w = staleWorld and env = "exampleEnv 100000" and it = telegramItem
      and p = downloadedPath and ?calls1.0 = "[TgGetFile, TgDownload]"
      and ?fs1.0 = "files staleWorld" and now = 100000 and envs = exampleEnvs
      and q = telegramQueue] d h m p
  show ?thesis by simp
qed

section \<open>The loop of the processor\<close>

lemma queueInvariant_alt:
  "queueInvariant q
   = (distinct (map item_id (pending q @ posted q))
      \<and> (\<forall>p \<in> set (pending q). status p \<noteq> Posted))"
  by (auto simp: queueInvariant_def)

lemma processItem_ok:
  assumes "postToFacebook rt c it env (ps_world st) = (Inr r, calls, w')"
  shows "ps_pending (processItem rt c nowIso env (t, it) st) = dropId (item_id it) (ps_pending st)"
    and "ps_posted (processItem rt c nowIso env (t, it) st)
         = ps_posted st @ [markedPosted nowIso (res_id r) it]"
    and "ps_attempts (processItem rt c nowIso env (t, it) st) = ps_attempts st @ [(t, Inr r)]"
  using assms by (simp_all add: processItem_def dropId_def markedPosted_def split_def)

lemma processItem_fail:
  assumes "postToFacebook rt c it env (ps_world st) = (Inl msg, calls, w')"
  shows "ps_pending (processItem rt c nowIso env (t, it) st) = failTag t msg (ps_pending st)"
    and "ps_posted (processItem rt c nowIso env (t, it) st) = ps_posted st"
    and "ps_attempts (processItem rt c nowIso env (t, it) st) = ps_attempts st @ [(t, Inl msg)]"
  using assms by (simp_all add: processItem_def failTag_def markedFailed_def split_def)

lemma outcome_cases:
  obtains (ok) r calls w' where "postToFacebook rt c it env w = (Inr r, calls, w')"
  | (fail) msg calls w' where "postToFacebook rt c it env w = (Inl msg, calls, w')"
  by (metis prod_cases3 sum.exhaust)

lemma failTag_fst: "map fst (failTag t msg ps) = map fst ps"
  by (induction ps) (auto simp: failTag_def)

lemma failTag_ids: "map (\<lambda>x. item_id (snd x)) (failTag t msg ps) = map (\<lambda>x. item_id (snd x)) ps"
  by (induction ps) (auto simp: failTag_def markedFailed_def)

lemma failTag_other: "(t', p) \<in> set ps \<Longrightarrow> t' \<noteq> t \<Longrightarrow> (t', p) \<in> set (failTag t msg ps)"
  by (force simp: failTag_def)


lemma failTag_status: "(t', p) \<in> set (failTag t msg ps) \<Longrightarrow>
   status p = Failed \<or> (t', p) \<in> set ps"
  by (auto simp: failTag_def markedFailed_def split: if_splits)

lemma dropId_fst: "distinct (map fst ps) \<Longrightarrow> distinct (map fst (dropId i ps))"
  by (simp add: dropId_def distinct_map_filter)

lemma dropId_other: "(t', p) \<in> set ps \<Longrightarrow> item_id p \<noteq> i \<Longrightarrow> (t', p) \<in> set (dropId i ps)"
  by (simp add: dropId_def)

lemma dropId_sub: "set (dropId i ps) \<subseteq> set ps"
  by (auto simp: dropId_def)

lemma dropId_ids:
  "map (\<lambda>x. item_id (snd x)) (dropId i ps) = filter (\<lambda>j. j \<noteq> i) (map (\<lambda>x. item_id (snd x)) ps)"
  by (induction ps) (auto simp: dropId_def)

lemma loopInv_step:
  assumes "loopInv ((t, it) # rest) st"
  shows "loopInv rest (processItem rt c nowIso env (t, it) st)"
proof -
  let ?P = "ps_pending st"
  let ?ids = "\<lambda>xs::(nat \<times> item) list. map (\<lambda>x. item_id (snd x)) xs"
  from assms have dt: "distinct (map fst rest)" and tn: "t \<notin> fst ` set rest"
    and here: "(t, it) \<in> set ?P" and sub: "set rest \<subseteq> set ?P"
    and dP: "distinct (map fst ?P)"
    and dI: "distinct (?ids ?P @ map item_id (ps_posted st))"
    and nP: "\<forall>(t, p) \<in> set ?P. status p \<noteq> Posted"
    by (auto simp: loopInv_def)
  from dI have inj: "inj_on (\<lambda>x. item_id (snd x)) (set ?P)" by (simp add: distinct_map)
  have other_id: "item_id p \<noteq> item_id it" if "(t', p) \<in> set rest" for t' p
  proof -
    from that tn have ne: "t' \<noteq> t" by force
    from that sub have there: "(t', p) \<in> set ?P" by auto
    show ?thesis
    proof
      assume "item_id p = item_id it"
      then have "(\<lambda>x. item_id (snd x)) (t', p) = (\<lambda>x. item_id (snd x)) (t, it)" by simp
      then have "(t', p) = (t, it)"
        using inj_onD [OF inj, of "(t', p)" "(t, it)"] there here by simp
      with ne show False by simp
    qed
  qed
  show ?thesis
  proof (cases rule: outcome_cases [of rt c it env "ps_world st"])
    case (ok r calls w')
    note po = processItem_ok [OF ok, of nowIso t]
    have s1: "set rest \<subseteq> set (dropId (item_id it) ?P)"
      using sub other_id by (auto intro: dropId_other)
    have idit: "item_id it \<in> set (?ids ?P)" using here by force
    have d1: "distinct (?ids (dropId (item_id it) ?P)
                @ map item_id (ps_posted st @ [markedPosted nowIso (res_id r) it]))"
      using dI idit by (auto simp: dropId_ids markedPosted_def)
    have n1: "\<forall>(t, p) \<in> set (dropId (item_id it) ?P). status p \<noteq> Posted"
      using nP by (auto simp: dropId_def)
    show ?thesis
      unfolding loopInv_def po using dt s1 dropId_fst [OF dP] d1 n1 by simp
  next
    case (fail msg calls w')
    note pf = processItem_fail [OF fail, of nowIso t]
    have s1: "set rest \<subseteq> set (failTag t msg ?P)"
    proof
      fix x assume x: "x \<in> set rest"
      obtain t' p where xp: "x = (t', p)" by (cases x)
      with x tn have "t' \<noteq> t" by force
      with x xp sub show "x \<in> set (failTag t msg ?P)" by (auto intro: failTag_other)
    qed
    have n1: "\<forall>(t', p) \<in> set (failTag t msg ?P). status p \<noteq> Posted"
      using nP by (auto dest!: failTag_status)
    show ?thesis
      unfolding loopInv_def pf using dt s1 dP dI n1 by (simp add: failTag_fst failTag_ids)
  qed
qed

lemma loopInv_loop:
  "loopInv due st \<Longrightarrow> loopInv [] (processLoop rt c nowIso envs due k st)"
proof (induction due arbitrary: k st)
  case Nil
  then show ?case by simp
next
  case (Cons ti due)
  obtain t it where ti: "ti = (t, it)" by (cases ti)
  from Cons.prems have "loopInv due (processItem rt c nowIso (envs k) (t, it) st)"
    unfolding ti by (rule loopInv_step)
  from Cons.IH [OF this] show ?case by (simp add: ti)
qed

lemma tagged_props: "map fst (tagged ps) = [0..<length ps]" "map snd (tagged ps) = ps"
  by (simp_all add: tagged_def)

lemma loopInv_start:
  assumes "queueInvariant q"
  shows "loopInv (duePosts nowIso (pending q)) (startState w q)"
proof -
  have "map (\<lambda>x. item_id (snd x)) (tagged (pending q)) = map item_id (pending q)"
  proof -
    have "map (\<lambda>x. item_id (snd x)) (tagged (pending q))
          = map item_id (map snd (tagged (pending q)))" by (simp add: comp_def)
    then show ?thesis by (simp only: tagged_props)
  qed
  moreover have "distinct (map fst (filter (\<lambda>(t, it). isDue nowIso it) (tagged (pending q))))"
    by (simp add: distinct_map_filter tagged_props)
  moreover have "(\<forall>(t, p) \<in> set (tagged (pending q)). status p \<noteq> Posted)"
    using assms by (auto simp: queueInvariant_alt tagged_def dest: set_zip_rightD)
  ultimately show ?thesis
    using assms by (simp add: loopInv_def duePosts_def startState_def queueInvariant_alt tagged_props)
qed

lemma processScheduledPosts_invariant:
  assumes "queueInvariant q" "s \<in> set (fst (processScheduledPosts rt c now envs w q))"
  shows "queueInvariant s"
proof -
  let ?st = "processLoop rt c (isoUtc rt now) envs (duePosts (isoUtc rt now) (pending q)) 0
               (startState w q)"
  have "loopInv [] ?st" using loopInv_start [OF assms(1)] by (rule loopInv_loop)
  moreover have "s = queueOf q ?st" using assms(2) by (simp add: processScheduledPosts_def Let_def)
  ultimately show ?thesis
    by (auto simp: loopInv_def queueInvariant_alt queueOf_def comp_def)
qed


text \<open>The definitions that evaluate a pass on the example data.\<close>

lemmas run_defs =
  processScheduledPosts_def Let_def duePosts_def tagged_def emptyQueue_def nowItem_def
  itemWithHash_def isDue_def startState_def processItem_def postToFacebook_def exampleConfig_def
  validateConfig_def missingOrPlaceholder_def truthyStr_def checkRateLimit_def minInterval_def
  exampleWorld_def exampleEnvs_def exampleEnv_def deliver_def publish_def fbCall_def
  updateRateLimit_def exampleRuntime_def toString_def dec.simps digit_def queueOf_def upt_rec
  pushPostedHash_def markedPosted_def markedFailed_def



lemma due_twoDue:
  "duePosts nowIso (pending twoDue) = [(0, nowItem ''a''), (1, nowItem ''b'')]"
  by (simp add: run_defs twoDue_def)

section \<open>Dry run\<close>

lemma processItem_dry:
  "dry_run c \<Longrightarrow>
   processItem rt c nowIso env (t, it) st =
     st\<lparr>ps_posted := ps_posted st
           @ [markedPosted nowIso (Some (''dry-run-'' @ toString (now_dry env))) it],
        ps_pending := filter (\<lambda>(t', p). item_id p \<noteq> item_id it) (ps_pending st),
        ps_hashes := pushPostedHash (contentHash it) (ps_hashes st),
        ps_world := ps_world st,
        ps_calls := ps_calls st @ [],
        ps_attempts := ps_attempts st
           @ [(t, Inr \<lparr>res_id = Some (''dry-run-'' @ toString (now_dry env)), dryRun = True\<rparr>)]\<rparr>"
  by (simp add: processItem_def postToFacebook_def markedPosted_def)

lemma zip_upt_Cons: "zip [k..<k + Suc n] (x # xs) = (k, x) # zip [Suc k..<Suc k + n] xs"
  by (simp add: upt_conv_Cons)

lemma processLoop_dry:
  "dry_run c \<Longrightarrow>
   ps_posted (processLoop rt c nowIso envs due k st)
     = ps_posted st
       @ map (\<lambda>(j, (t, it)). markedPosted nowIso (Some (''dry-run-'' @ toString (now_dry (envs j)))) it)
             (zip [k..<k + length due] due)
   \<and> ps_calls (processLoop rt c nowIso envs due k st) = ps_calls st
   \<and> ps_world (processLoop rt c nowIso envs due k st) = ps_world st
   \<and> (\<forall>a \<in> set (ps_attempts (processLoop rt c nowIso envs due k st)) - set (ps_attempts st).
         \<exists>r. snd a = Inr r)"
proof (induction due arbitrary: k st)
  case Nil
  then show ?case by simp
next
  case (Cons ti due)
  obtain t it where ti: "ti = (t, it)" by (cases ti)
  let ?st1 = "processItem rt c nowIso (envs k) (t, it) st"
  note ih = Cons.IH [OF Cons.prems, of "Suc k" ?st1]
  have z: "zip [k..<k + length (ti # due)] (ti # due)
           = (k, ti) # zip [Suc k..<Suc k + length due] due"
    using zip_upt_Cons [of k "length due" ti due] by simp
  show ?case
    using ih unfolding z by (auto simp: ti processItem_dry [OF Cons.prems])
qed

text \<open>
  Claim C7. With dry-run on, \<open>postToFacebook\<close> makes no network call, changes nothing and
  returns the dry-run object, whose id is \<open>dry-run-\<close> followed by the clock reading. A pass
  then makes no network call, no attempt ends with an exception, and the queue it saves
  has every due item appended to \<open>posted\<close>, marked posted with that id.
\<close>

theorem dry_run_isolation:
  assumes "dry_run c"
  shows "postToFacebook rt c it env w
           = (Inr \<lparr>res_id = Some (''dry-run-'' @ toString (now_dry env)), dryRun = True\<rparr>, [], w)
       \<and> ps_calls (snd (processScheduledPosts rt c now envs w q)) = []
       \<and> (\<forall>a \<in> set (ps_attempts (snd (processScheduledPosts rt c now envs w q))).
             \<exists>r. snd a = Inr r)
       \<and> (\<exists>saved. fst (processScheduledPosts rt c now envs w q) = [saved]
            \<and> posted saved
                = posted q
                  @ map (\<lambda>(j, (t, it)).
                           markedPosted (isoUtc rt now)
                             (Some (''dry-run-'' @ toString (now_dry (envs j)))) it)
                        (zip [0..<length (duePosts (isoUtc rt now) (pending q))]
                             (duePosts (isoUtc rt now) (pending q))))"
  using assms
    processLoop_dry [OF assms, of rt "isoUtc rt now" envs "duePosts (isoUtc rt now) (pending q)" 0
      "startState w q"]
  by (simp add: postToFacebook_def processScheduledPosts_def Let_def startState_def queueOf_def)

theorem dry_run_isolation_witness:
  "dry_run (exampleConfig\<lparr>dry_run := True\<rparr>)
   \<and> ps_calls (snd (processScheduledPosts exampleRuntime (exampleConfig\<lparr>dry_run := True\<rparr>)
                      100000 exampleEnvs exampleWorld twoDue)) = []
   \<and> (\<exists>saved. fst (processScheduledPosts exampleRuntime (exampleConfig\<lparr>dry_run := True\<rparr>)
                      100000 exampleEnvs exampleWorld twoDue) = [saved]
         \<and> posted saved
             = [markedPosted (isoUtc exampleRuntime 100000)
                  (Some (''dry-run-'' @ toString 100000)) (nowItem ''a''),
                markedPosted (isoUtc exampleRuntime 100000)
                  (Some (''dry-run-'' @ toString 100001)) (nowItem ''b'')])"
proof -
  have h: "dry_run (exampleConfig\<lparr>dry_run := True\<rparr>)" by simp
  have e: "now_dry (exampleEnvs 0) = 100000" "now_dry (exampleEnvs (Suc 0)) = 100001"
    by (simp_all add: exampleEnvs_def exampleEnv_def)
  have p: "posted twoDue = []" by (simp add: twoDue_def emptyQueue_def)
  show ?thesis
    using h dry_run_isolation [OF h, where rt = exampleRuntime and now = 100000
        and envs = exampleEnvs and w = exampleWorld and q = twoDue
        and it = "nowItem ''a''" and env = "exampleEnvs 0"]
    by (simp add: due_twoDue e p upt_rec)
qed

section \<open>The partition of the queue\<close>

lemma addToQueue_admitted:
  assumes "valid (validateInput cnt)"
    and "generateContentHash rt (content_text cnt) (content_mediaType cnt) \<notin> set (knownHashes q)"
  shows "\<exists>saves. snd (addToQueue rt c nowId nowAdded nows q cnt)
                 = q\<lparr>postedHashes := Some (knownHashes q),
                     pending := pending q @ [newItem rt nowId nowAdded cnt]\<rparr> # saves"
  using assms
  by (auto simp: addToQueue_def isDuplicateContent_def knownHashes_def Let_def
           split: prod.splits option.splits)

lemma erase_facts:
  assumes "map (\<lambda>p. p\<lparr>scheduledFor := None\<rparr>) ps' = map (\<lambda>p::item. p\<lparr>scheduledFor := None\<rparr>) ps"
  shows "map item_id ps' = map item_id ps" "map status ps' = map status ps"
proof -
  from assms have "map item_id (map (\<lambda>p. p\<lparr>scheduledFor := None\<rparr>) ps')
                 = map item_id (map (\<lambda>p. p\<lparr>scheduledFor := None\<rparr>) ps)" by simp
  then show "map item_id ps' = map item_id ps" by (simp add: comp_def)
  from assms have "map status (map (\<lambda>p. p\<lparr>scheduledFor := None\<rparr>) ps')
                 = map status (map (\<lambda>p. p\<lparr>scheduledFor := None\<rparr>) ps)" by simp
  then show "map status ps' = map status ps" by (simp add: comp_def)
qed

lemma queueInvariant_maps:
  "queueInvariant q
   = (distinct (map item_id (pending q) @ map item_id (posted q))
      \<and> Posted \<notin> set (map status (pending q)))"
  by (force simp: queueInvariant_alt)

lemma schedulePosts_invariant:
  assumes "queueInvariant q" "s \<in> set (snd (schedulePosts rt c nows q))"
  shows "queueInvariant s"
  using assms schedulePosts_erase [OF assms(2)]
    erase_facts [of "pending s" "pending q"]
  by (simp add: queueInvariant_maps)

lemma addToQueue_invariant:
  assumes "queueInvariant q" "toString nowId \<notin> item_id ` set (pending q @ posted q)"
    and "s \<in> set (snd (addToQueue rt c nowId nowAdded nows q cnt))"
  shows "queueInvariant s"
proof -
  let ?q2 = "q\<lparr>postedHashes := Some (knownHashes q),
               pending := pending q @ [newItem rt nowId nowAdded cnt]\<rparr>"
  have i2: "queueInvariant ?q2"
    using assms(1,2) by (auto simp: queueInvariant_alt newItem_def)
  from assms(3) have "s = ?q2 \<or> s \<in> set (snd (schedulePosts rt c nows ?q2))"
    by (auto simp: addToQueue_def isDuplicateContent_def knownHashes_def Let_def
             split: prod.splits option.splits if_splits)
  then show ?thesis using i2 schedulePosts_invariant [OF i2] by auto
qed

text \<open>
  Claim C2, amended. The empty queue is partitioned. From a partitioned queue, every queue
  that scheduling or processing writes is partitioned, and so is every queue that an
  ingestion writes when the decimal string of its clock reading is not yet the id of an
  item of the queue.
\<close>

theorem queue_partition_invariant:
  "queueInvariant emptyQueue
   \<and> (queueInvariant q \<longrightarrow>
        (toString nowId \<notin> item_id ` set (pending q @ posted q) \<longrightarrow>
           (\<forall>s \<in> set (snd (addToQueue rt c nowId nowAdded nows q cnt)). queueInvariant s))
        \<and> (\<forall>s \<in> set (snd (schedulePosts rt c nows q)). queueInvariant s)
        \<and> (\<forall>s \<in> set (fst (processScheduledPosts rt c now envs w q)). queueInvariant s))"
proof (intro conjI impI ballI)
  show "queueInvariant emptyQueue" by (simp add: queueInvariant_def emptyQueue_def)
next
  fix s
  assume "queueInvariant q" "toString nowId \<notin> item_id ` set (pending q @ posted q)"
    "s \<in> set (snd (addToQueue rt c nowId nowAdded nows q cnt))"
  then show "queueInvariant s" by (rule addToQueue_invariant)
next
  fix s
  assume "queueInvariant q" "s \<in> set (snd (schedulePosts rt c nows q))"
  then show "queueInvariant s" by (rule schedulePosts_invariant)
next
  fix s
  assume "queueInvariant q" "s \<in> set (fst (processScheduledPosts rt c now envs w q))"
  then show "queueInvariant s" by (rule processScheduledPosts_invariant)
qed

lemma afterFirstAdd_eq:
  "afterFirstAdd =
     emptyQueue\<lparr>pending := [(newItem exampleRuntime 1000 1001 exampleContent)
                               \<lparr>scheduledFor := Some (toString 64800000)\<rparr>]\<rparr>"
  by (simp add: afterFirstAdd_def storeAfter_def addToQueue_def validateInput_def
        exampleContent_def isDuplicateContent_def emptyQueue_def schedulePosts_def
        unscheduled_def toSchedule_def slice0_def postsPerDay_def newItem_def truthyStr_def
        example_slot_afternoon exampleClock_def generateContentHash_def Let_def
        example_fields)

theorem queue_partition_invariant_witness:
  "queueInvariant afterFirstAdd
   \<and> toString 2000 \<notin> item_id ` set (pending afterFirstAdd @ posted afterFirstAdd)
   \<and> queueInvariant
         (storeAfter afterFirstAdd
            (snd (addToQueue exampleRuntime exampleConfig 2000 2001 exampleClock afterFirstAdd
                    otherContent)))"
proof -
  let ?r = "addToQueue exampleRuntime exampleConfig 2000 2001 exampleClock afterFirstAdd
              otherContent"
  have ne: "toString 2000 \<noteq> toString 1000"
    by (simp add: toString_def dec.simps digit_def)
  have a: "queueInvariant afterFirstAdd"
    by (simp add: afterFirstAdd_eq queueInvariant_def emptyQueue_def newItem_def)
  have b: "toString 2000 \<notin> item_id ` set (pending afterFirstAdd @ posted afterFirstAdd)"
    using ne by (simp add: afterFirstAdd_eq emptyQueue_def newItem_def)
  have v: "valid (validateInput otherContent)"
    by (simp add: validateInput_def otherContent_def exampleContent_def)
  have h: "generateContentHash exampleRuntime (content_text otherContent)
             (content_mediaType otherContent) \<notin> set (knownHashes afterFirstAdd)"
    by (simp add: knownHashes_def afterFirstAdd_eq emptyQueue_def)
  have "snd ?r \<noteq> []"
    using addToQueue_admitted [OF v h, of exampleConfig 2000 2001 exampleClock] by auto
  then have m: "storeAfter afterFirstAdd (snd ?r) \<in> set (snd ?r)"
    by (simp add: storeAfter_def)
  show ?thesis
    using a b m queue_partition_invariant [of afterFirstAdd 2000 exampleRuntime exampleConfig 2001
        exampleClock otherContent]
    by blast
qed

text \<open>
  Claim C2 as stated fails at an ingestion whose clock reading is that of an earlier one:
  the second item gets the id of the first.
\<close>

theorem id_collision_counterexample:
  "queueInvariant afterFirstAdd
   \<and> \<not> queueInvariant
         (storeAfter afterFirstAdd
            (snd (addToQueue exampleRuntime exampleConfig 1000 1002 exampleClock
                    afterFirstAdd otherContent)))"
proof -
  have a: "queueInvariant afterFirstAdd"
    by (simp add: afterFirstAdd_eq queueInvariant_def emptyQueue_def newItem_def)
  let ?r = "addToQueue exampleRuntime exampleConfig 1000 1002 exampleClock
              afterFirstAdd otherContent"
  have v: "valid (validateInput otherContent)"
    by (simp add: validateInput_def otherContent_def exampleContent_def)
  have h: "generateContentHash exampleRuntime (content_text otherContent)
             (content_mediaType otherContent) \<notin> set (knownHashes afterFirstAdd)"
    by (simp add: knownHashes_def afterFirstAdd_eq emptyQueue_def)
  have "snd ?r \<noteq> []"
    using addToQueue_admitted [OF v h, of exampleConfig 1000 1002 exampleClock] by auto
  then have m: "storeAfter afterFirstAdd (snd ?r) \<in> set (snd ?r)"
    by (simp add: storeAfter_def)
  let ?s = "storeAfter afterFirstAdd (snd ?r)"
  let ?q2 = "afterFirstAdd\<lparr>postedHashes := Some (knownHashes afterFirstAdd),
               pending := pending afterFirstAdd @ [newItem exampleRuntime 1000 1002 otherContent]\<rparr>"
  from m have "?s = ?q2 \<or> ?s \<in> set (snd (schedulePosts exampleRuntime exampleConfig exampleClock ?q2))"
    by (auto simp: addToQueue_def isDuplicateContent_def knownHashes_def Let_def
             split: prod.splits option.splits if_splits)
  then have "map item_id (pending ?s) = map item_id (pending ?q2)"
    using schedulePosts_erase [of ?s exampleRuntime exampleConfig exampleClock ?q2]
      erase_facts(1) [of "pending ?s" "pending ?q2"] by auto
  then have "map item_id (pending ?s) = [toString 1000, toString 1000]"
    by (simp add: afterFirstAdd_eq emptyQueue_def newItem_def)
  then have "\<not> queueInvariant ?s" by (simp add: queueInvariant_def)
  with a show ?thesis by simp
qed

section \<open>A failed delivery\<close>











section \<open>The bounded history of hashes\<close>

lemma pushPostedHash_bound:
  "length (hashesOf ph) \<le> 1000 \<Longrightarrow> length (hashesOf (pushPostedHash ch ph)) \<le> 1000"
  by (auto simp: pushPostedHash_def hashesOf_def Let_def split: option.splits)

lemma postedHashesAfter_bound:
  "length (hashesOf ph) \<le> 1000 \<Longrightarrow> length (hashesOf (postedHashesAfter ph its)) \<le> 1000"
proof (induction its rule: rev_induct)
  case Nil
  then show ?case by (simp add: postedHashesAfter_def)
next
  case (snoc x xs)
  then show ?case by (simp add: postedHashesAfter_def pushPostedHash_bound)
qed

lemma processItem_hashes:
  "ps_hashes (processItem rt c nowIso env (t, it) st) =
     (case fst (postToFacebook rt c it env (ps_world st)) of
        Inr r \<Rightarrow> pushPostedHash (contentHash it) (ps_hashes st)
      | Inl m \<Rightarrow> ps_hashes st)"
  by (auto simp: processItem_def split: prod.splits sum.splits)

lemma postedHashesAfter_Cons:
  "postedHashesAfter ph (x # xs) = postedHashesAfter (pushPostedHash (contentHash x) ph) xs"
  by (simp add: postedHashesAfter_def)

lemma processLoop_delivered:
  "ps_posted (processLoop rt c nowIso envs due k st)
     = ps_posted st
       @ map (\<lambda>d. markedPosted nowIso (res_id (snd d)) (fst d))
             (delivered rt c envs due k (ps_world st))
   \<and> ps_hashes (processLoop rt c nowIso envs due k st)
     = postedHashesAfter (ps_hashes st) (map fst (delivered rt c envs due k (ps_world st)))"
proof (induction due arbitrary: k st)
  case Nil
  then show ?case by (simp add: postedHashesAfter_def)
next
  case (Cons ti due)
  obtain t it where ti: "ti = (t, it)" by (cases ti)
  let ?st1 = "processItem rt c nowIso (envs k) (t, it) st"
  note ih = Cons.IH [of "Suc k" ?st1]
  show ?case
  proof (cases rule: outcome_cases [of rt c it "envs k" "ps_world st"])
    case (ok r calls w')
    then show ?thesis using ih processItem_ok(2) [OF ok, of nowIso t]
      by (simp add: ti processItem_world processItem_hashes postedHashesAfter_Cons)
  next
    case (fail msg calls w')
    then show ?thesis using ih processItem_fail(2) [OF fail, of nowIso t]
      by (simp add: ti processItem_world processItem_hashes)
  qed
qed

lemma pushPostedHash_fresh:
  assumes "h \<noteq> []" "h \<notin> set hs"
  shows "pushPostedHash (Some h) (Some (drop (length hs - 1000) hs))
         = Some (drop (length (hs @ [h]) - 1000) (hs @ [h]))"
proof -
  let ?d = "drop (length hs - 1000) hs"
  have notin: "h \<notin> set ?d" using assms(2) by (auto dest: in_set_dropD)
  show ?thesis
  proof (cases "length hs < 1000")
    case True
    then show ?thesis using assms notin
      by (simp add: pushPostedHash_def truthyStr_def Let_def)
  next
    case False
    then have len: "length ?d = 1000" by simp
    then have ne: "?d \<noteq> []" by auto
    have "tl (?d @ [h]) = tl ?d @ [h]" using ne by simp
    also have "tl ?d = drop (Suc (length hs - 1000)) hs" by (simp add: drop_Suc tl_drop)
    also have "Suc (length hs - 1000) = length (hs @ [h]) - 1000" using False by simp
    finally have t: "tl (?d @ [h]) = drop (length (hs @ [h]) - 1000) hs @ [h]" .
    have "length (hs @ [h]) - 1000 \<le> length hs" using False by simp
    then have "drop (length (hs @ [h]) - 1000) (hs @ [h]) = drop (length (hs @ [h]) - 1000) hs @ [h]"
      by simp
    with t have "tl (?d @ [h]) = drop (length (hs @ [h]) - 1000) (hs @ [h])" by simp
    then show ?thesis using assms notin len
      by (simp add: pushPostedHash_def truthyStr_def Let_def)
  qed
qed

lemma pushPostedHash_hashesOf: "pushPostedHash ch ph = pushPostedHash ch (Some (hashesOf ph))"
  by (simp add: pushPostedHash_def hashesOf_def)

lemma postedHashesAfter_history:
  assumes "hashesOf ph = drop (length H - 1000) H"
    and "distinct (H @ map (\<lambda>it. the (contentHash it)) its)"
    and "\<forall>it \<in> set its. truthyStr (contentHash it)"
  shows "hashesOf (postedHashesAfter ph its)
         = drop (length (H @ map (\<lambda>it. the (contentHash it)) its) - 1000)
                (H @ map (\<lambda>it. the (contentHash it)) its)"
  using assms(2,3)
proof (induction its rule: rev_induct)
  case Nil
  then show ?case using assms(1) by (simp add: postedHashesAfter_def)
next
  case (snoc x xs)
  let ?hs = "H @ map (\<lambda>it. the (contentHash it)) xs"
  from snoc.prems obtain h where h: "contentHash x = Some h" "h \<noteq> []"
    by (auto simp: truthyStr_def split: option.splits)
  have nin: "h \<notin> set ?hs" using snoc.prems(1) h by auto
  have ih: "hashesOf (postedHashesAfter ph xs) = drop (length ?hs - 1000) ?hs"
    using snoc by simp
  have "postedHashesAfter ph (xs @ [x]) = pushPostedHash (Some h) (postedHashesAfter ph xs)"
    by (simp add: postedHashesAfter_def h)
  also have "\<dots> = pushPostedHash (Some h) (Some (drop (length ?hs - 1000) ?hs))"
    using pushPostedHash_hashesOf [of "Some h" "postedHashesAfter ph xs"] ih by simp
  also have "\<dots> = Some (drop (length (?hs @ [h]) - 1000) (?hs @ [h]))"
    using pushPostedHash_fresh [OF h(2) nin] .
  finally show ?case using h by (simp add: hashesOf_def)
qed

lemma knownHashes_queueOf: "knownHashes (queueOf q st) = hashesOf (ps_hashes st)"
  by (simp add: knownHashes_def queueOf_def hashesOf_def)

lemma deliveredHashes_alt:
  "deliveredHashes ds = map (\<lambda>it. the (contentHash it)) (map fst ds)"
  by (simp add: deliveredHashes_def comp_def)

text \<open>
  Claim C5. The queue that a pass of \<open>processScheduledPosts\<close> saves has the items it
  delivered appended to \<open>posted\<close>, and its \<open>postedHashes\<close> has at most 1000 entries when that
  of the loaded queue has. When \<open>postedHashes\<close> holds the last 1000 of a history \<open>H\<close> of
  hashes and the hashes delivered are non-empty, new and pairwise different, the saved
  \<open>postedHashes\<close> holds the last 1000 of \<open>H\<close> followed by the hashes delivered, in the order
  of delivery: the oldest entries are the ones left out. So after 1001 such deliveries
  from an empty \<open>postedHashes\<close> it has exactly 1000 entries, all but the first delivered.
\<close>

theorem postedHashes_bounded:
  "\<exists>saved. fst (processScheduledPosts rt c now envs w q) = [saved]
     \<and> posted saved
         = posted q @ map (\<lambda>d. markedPosted (isoUtc rt now) (res_id (snd d)) (fst d))
                          (deliveredInPass rt c now envs w q)
     \<and> (length (knownHashes q) \<le> 1000 \<longrightarrow> length (knownHashes saved) \<le> 1000)
     \<and> (knownHashes q = drop (length H - 1000) H
          \<and> distinct (H @ deliveredHashes (deliveredInPass rt c now envs w q))
          \<and> (\<forall>d \<in> set (deliveredInPass rt c now envs w q). truthyStr (contentHash (fst d)))
        \<longrightarrow> knownHashes saved
              = drop (length (H @ deliveredHashes (deliveredInPass rt c now envs w q)) - 1000)
                     (H @ deliveredHashes (deliveredInPass rt c now envs w q)))
     \<and> (knownHashes q = []
          \<and> distinct (deliveredHashes (deliveredInPass rt c now envs w q))
          \<and> (\<forall>d \<in> set (deliveredInPass rt c now envs w q). truthyStr (contentHash (fst d)))
          \<and> length (deliveredInPass rt c now envs w q) = 1001
        \<longrightarrow> length (knownHashes saved) = 1000
            \<and> knownHashes saved = tl (deliveredHashes (deliveredInPass rt c now envs w q)))"
proof -
  let ?D = "deliveredInPass rt c now envs w q"
  let ?st = "processLoop rt c (isoUtc rt now) envs (duePosts (isoUtc rt now) (pending q)) 0
               (startState w q)"
  let ?saved = "queueOf q ?st"
  note l = processLoop_delivered [of rt c "isoUtc rt now" envs
      "duePosts (isoUtc rt now) (pending q)" 0 "startState w q"]
  have s: "fst (processScheduledPosts rt c now envs w q) = [?saved]"
    by (simp add: processScheduledPosts_def Let_def)
  have p: "posted ?saved
         = posted q @ map (\<lambda>d. markedPosted (isoUtc rt now) (res_id (snd d)) (fst d)) ?D"
    using l by (simp add: queueOf_def deliveredInPass_def startState_def)
  have k: "knownHashes ?saved = hashesOf (postedHashesAfter (postedHashes q) (map fst ?D))"
    using l by (simp add: knownHashes_queueOf deliveredInPass_def startState_def)
  have q0: "hashesOf (postedHashes q) = knownHashes q"
    by (simp add: hashesOf_def knownHashes_def)
  have b: "length (knownHashes q) \<le> 1000 \<longrightarrow> length (knownHashes ?saved) \<le> 1000"
    using postedHashesAfter_bound [of "postedHashes q" "map fst ?D"] by (simp add: k q0)
  have hist: "knownHashes ?saved = drop (length (H' @ deliveredHashes ?D) - 1000)
                                       (H' @ deliveredHashes ?D)"
    if "knownHashes q = drop (length H' - 1000) H'" "distinct (H' @ deliveredHashes ?D)"
       "\<forall>d \<in> set ?D. truthyStr (contentHash (fst d))" for H'
    using postedHashesAfter_history [of "postedHashes q" H' "map fst ?D"] that
    by (simp add: k q0 deliveredHashes_alt)
  have e: "length (knownHashes ?saved) = 1000 \<and> knownHashes ?saved = tl (deliveredHashes ?D)"
    if "knownHashes q = []" "distinct (deliveredHashes ?D)"
       "\<forall>d \<in> set ?D. truthyStr (contentHash (fst d))" "length ?D = 1001"
  proof -
    have "length (deliveredHashes ?D) = 1001" using that(4) by (simp add: deliveredHashes_def)
    then show ?thesis using hist [of "[]"] that by (simp add: drop_Suc)
  qed
  from s p b hist [of H] e show ?thesis by blast
qed

lemma post_spaced:
  assumes "rl_lastPostTime w + 60000 \<le> t"
  shows "postToFacebook exampleRuntime exampleConfig (nowItem h) (exampleEnv t) w
         = (Inr \<lparr>res_id = Some ''page_post'', dryRun = False\<rparr>, [FbFeed],
            w\<lparr>rl_lastPostTime := t\<rparr>)"
  using assms
  by (simp add: postToFacebook_def exampleConfig_def validateConfig_def
        missingOrPlaceholder_def truthyStr_def checkRateLimit_def minInterval_def Let_def
        exampleEnv_def deliver_def nowItem_def itemWithHash_def publish_def fbCall_def
        updateRateLimit_def)

lemma delivered_spaced:
  assumes "rl_lastPostTime w + 60000 \<le> 100000 + 60000 * int k"
  shows "map fst (delivered exampleRuntime exampleConfig spacedEnvs
                    (zip ts (map nowItem hs)) k w) = map nowItem (take (length ts) hs)"
  using assms
proof (induction hs arbitrary: ts k w)
  case Nil
  then show ?case by simp
next
  case (Cons h hs)
  show ?case
  proof (cases ts)
    case Nil
    then show ?thesis by simp
  next
    case (Cons t ts')
    have "rl_lastPostTime (w\<lparr>rl_lastPostTime := 100000 + 60000 * int k\<rparr>) + 60000
          \<le> 100000 + 60000 * int (Suc k)" by simp
    from Cons.IH [OF this, of ts'] post_spaced [OF Cons.prems, of h]
    show ?thesis by (simp add: Cons spacedEnvs_def)
  qed
qed

lemma manyDue_delivered:
  "map fst (deliveredInPass exampleRuntime exampleConfig now spacedEnvs exampleWorld (manyDue n))
   = pending (manyDue n)"
proof -
  let ?hs = "map (\<lambda>k. replicate (Suc k) CHR ''a'') [0..<n]"
  have p: "pending (manyDue n) = map nowItem ?hs" by (simp add: manyDue_def comp_def)
  have "\<forall>x \<in> set (tagged (map nowItem ?hs)). (case x of (t, it) \<Rightarrow> isDue nowIso it)" for nowIso
    by (auto simp: tagged_def isDue_def nowItem_def dest!: set_zip_rightD)
  then have due: "duePosts nowIso (map nowItem ?hs) = zip [0..<n] (map nowItem ?hs)" for nowIso
    unfolding duePosts_def by (simp add: tagged_def)
  have "rl_lastPostTime exampleWorld + 60000 \<le> 100000 + 60000 * int 0"
    by (simp add: exampleWorld_def)
  from delivered_spaced [OF this, of "[0..<n]" ?hs] show ?thesis
    unfolding deliveredInPass_def p due by simp
qed

lemma manyDue_hashes:
  "deliveredHashes (deliveredInPass exampleRuntime exampleConfig now spacedEnvs exampleWorld
                      (manyDue n))
   = map (\<lambda>k. replicate (Suc k) CHR ''a'') [0..<n]"
  by (simp add: deliveredHashes_alt manyDue_delivered)
     (simp add: manyDue_def nowItem_def itemWithHash_def comp_def)

lemma manyDue_props:
  "length (deliveredInPass exampleRuntime exampleConfig now spacedEnvs exampleWorld (manyDue n)) = n"
  "distinct (deliveredHashes (deliveredInPass exampleRuntime exampleConfig now spacedEnvs
                                exampleWorld (manyDue n)))"
  "list_all (\<lambda>d. truthyStr (contentHash (fst d)))
     (deliveredInPass exampleRuntime exampleConfig now spacedEnvs exampleWorld (manyDue n))"
proof -
  let ?D = "deliveredInPass exampleRuntime exampleConfig now spacedEnvs exampleWorld (manyDue n)"
  have "length (map fst ?D) = n" unfolding manyDue_delivered by (simp add: manyDue_def)
  then show "length ?D = n" by simp
  have "inj_on (\<lambda>k. replicate (Suc k) CHR ''a'') (set [0..<n])"
    by (rule inj_onI) (auto dest: arg_cong [where f = length])
  then show "distinct (deliveredHashes ?D)"
    unfolding manyDue_hashes by (simp add: distinct_map)
  have "list_all (\<lambda>it. truthyStr (contentHash it)) (map fst ?D)"
    unfolding manyDue_delivered
    by (simp add: manyDue_def list_all_iff nowItem_def itemWithHash_def truthyStr_def)
  then show "list_all (\<lambda>d. truthyStr (contentHash (fst d))) ?D"
    by (simp add: list_all_iff)
qed


lemma manyDue_fields: "knownHashes (manyDue n) = []" "posted (manyDue n) = []"
  by (simp_all add: knownHashes_def manyDue_def emptyQueue_def)

lemma tl_map_upt: "0 < n \<Longrightarrow> tl (map f [0..<n]) = map f [1..<n]"
  by (cases n) (simp_all add: upt_conv_Cons del: upt_Suc)

theorem postedHashes_bounded_witness:
  "knownHashes (manyDue 1001) = []
   \<and> length (deliveredInPass exampleRuntime exampleConfig 100000 spacedEnvs exampleWorld
               (manyDue 1001)) = 1001
   \<and> distinct (deliveredHashes (deliveredInPass exampleRuntime exampleConfig 100000 spacedEnvs
                                  exampleWorld (manyDue 1001)))
   \<and> list_all (\<lambda>d. truthyStr (contentHash (fst d)))
        (deliveredInPass exampleRuntime exampleConfig 100000 spacedEnvs exampleWorld
           (manyDue 1001))
   \<and> (\<exists>saved. fst (processScheduledPosts exampleRuntime exampleConfig 100000 spacedEnvs
                      exampleWorld (manyDue 1001)) = [saved]
         \<and> length (posted saved) = 1001
         \<and> length (knownHashes saved) = 1000
         \<and> knownHashes saved = map (\<lambda>k. replicate (Suc k) CHR ''a'') [1..<1001])"
proof -
  let ?D = "deliveredInPass exampleRuntime exampleConfig 100000 spacedEnvs exampleWorld
              (manyDue 1001)"
  note k = manyDue_fields [of 1001]
  note m = manyDue_props [of 100000 1001]
  have a: "\<forall>d \<in> set ?D. truthyStr (contentHash (fst d))"
    using m(3) by (simp add: list_all_iff)
  have "(0::nat) < 1001" by simp
  then have t: "tl (deliveredHashes ?D) = map (\<lambda>k. replicate (Suc k) CHR ''a'') [1..<1001]"
    unfolding manyDue_hashes by (rule tl_map_upt)
  from postedHashes_bounded [where rt = exampleRuntime and c = exampleConfig and now = 100000
      and envs = spacedEnvs and w = exampleWorld and q = "manyDue 1001" and H = "[]"]
  obtain saved where s:
    "fst (processScheduledPosts exampleRuntime exampleConfig 100000 spacedEnvs exampleWorld
            (manyDue 1001)) = [saved]"
    "posted saved = posted (manyDue 1001)
       @ map (\<lambda>d. markedPosted (isoUtc exampleRuntime 100000) (res_id (snd d)) (fst d)) ?D"
    "knownHashes (manyDue 1001) = [] \<and> distinct (deliveredHashes ?D)
       \<and> (\<forall>d \<in> set ?D. truthyStr (contentHash (fst d))) \<and> length ?D = 1001
     \<longrightarrow> length (knownHashes saved) = 1000 \<and> knownHashes saved = tl (deliveredHashes ?D)"
    by blast
  from s(3) k(1) m(1,2) a have r: "length (knownHashes saved) = 1000"
    "knownHashes saved = tl (deliveredHashes ?D)" by blast+
  from r(2) t have r2: "knownHashes saved = map (\<lambda>k. replicate (Suc k) CHR ''a'') [1..<1001]"
    by (rule trans)
  have "length (posted saved) = length ?D" unfolding s(2) k(2) by simp
  then have r3: "length (posted saved) = 1001" using m(1) by (rule trans)
  from k(1) m s(1) r(1) r2 r3 show ?thesis by blast
qed

end
